theory Spec2Isabelle
  imports Main
begin

section \<open>Exceptions\<close>

text \<open>
  The exceptions the modelled functions can raise. A failed \<^verbatim>\<open>assert\<close> is
  \<open>AssertionError\<close>; reading a local variable that no assignment has reached is
  \<open>UnboundLocalError\<close>; indexing or reading an attribute of \<^verbatim>\<open>None\<close> is
  \<open>TypeError\<close> or \<open>AttributeError\<close>; \<open>NoItemError\<close> is the exception class of
  \<^verbatim>\<open>util\<close>; \<open>AlphabetError\<close> is the one cogent3 raises for a character outside
  the alphabet of a sequence, \<open>DataError\<close> for sequences of unequal length and
  \<open>ValueError\<close> for sequences of the same name; \<open>OtherError\<close> stands for any other
  exception of the database layer.
\<close>

datatype error =
    AssertionError
  | UnboundLocalError
  | KeyError
  | IndexError
  | TypeError
  | AttributeError
  | NoItemError
  | AlphabetError
  | DataError
  | ValueError
  | OtherError string

section \<open>DNA sequences\<close>

text \<open>
  A DNA sequence of cogent3 is modelled by its string, and \<^verbatim>\<open>str(seq)\<close> by the
  identity. Strings are strings of ASCII characters.

  \<^verbatim>\<open>DNA.make_seq(seq)\<close> builds the sequence object: every u is replaced by t and
  every U by T (\<^verbatim>\<open>_seq_filter\<close>), the string is put in upper case, and
  \<^verbatim>\<open>verify_sequence\<close> raises \<open>AlphabetError\<close> when a character is not one of the
  alphabet: the four bases, the ambiguity codes, the missing-data character and the gap.
\<close>

definition seq_filter :: "string \<Rightarrow> string" where
  "seq_filter seq =
     map (\<lambda>c. if c = CHR ''u'' then CHR ''t'' else if c = CHR ''U'' then CHR ''T'' else c) seq"

definition upper_char :: "char \<Rightarrow> char" where
  "upper_char c =
     (case map_of (zip ''abcdefghijklmnopqrstuvwxyz'' ''ABCDEFGHIJKLMNOPQRSTUVWXYZ'') c of
        None \<Rightarrow> c
      | Some C \<Rightarrow> C)"

definition upper :: "string \<Rightarrow> string" where
  "upper seq = map upper_char seq"

definition dna_alphabet :: "char list" where
  "dna_alphabet = ''TCAGRYWSKMBDHVN?-''"

definition verify_sequence :: "string \<Rightarrow> bool" where
  "verify_sequence seq = list_all (\<lambda>c. c \<in> set dna_alphabet) seq"

definition make_seq :: "string \<Rightarrow> error + string" where
  "make_seq seq =
     (let seq' = upper (seq_filter seq) in
      if verify_sequence seq' then Inr seq' else Inl AlphabetError)"

text \<open>
  Reverse complement of a DNA sequence (\<^verbatim>\<open>seq.rc()\<close>): the string is reversed and
  every character replaced by its complement; the ambiguity codes pair up and the
  characters without a complement, the gap among them, stay.
\<close>

fun complement :: "char \<Rightarrow> char" where
  "complement c =
     (if c = CHR ''A'' then CHR ''T'' else if c = CHR ''T'' then CHR ''A''
      else if c = CHR ''C'' then CHR ''G'' else if c = CHR ''G'' then CHR ''C''
      else if c = CHR ''R'' then CHR ''Y'' else if c = CHR ''Y'' then CHR ''R''
      else if c = CHR ''K'' then CHR ''M'' else if c = CHR ''M'' then CHR ''K''
      else if c = CHR ''B'' then CHR ''V'' else if c = CHR ''V'' then CHR ''B''
      else if c = CHR ''D'' then CHR ''H'' else if c = CHR ''H'' then CHR ''D''
      else c)"

definition rc :: "string \<Rightarrow> string" where
  "rc s = rev (map complement s)"

section \<open>sequence.py: assembling fragments\<close>

text \<open>
  The loop of \<^verbatim>\<open>_assemble_seq\<close>. Its state is the index given by
  \<^verbatim>\<open>enumerate\<close>, \<^verbatim>\<open>prev_end\<close>, the loop variable \<^verbatim>\<open>frag_end\<close>
  (\<open>None\<close> as long as no iteration has bound it) and the list \<^verbatim>\<open>assembled\<close>.
\<close>

fun assemble_loop ::
  "string list \<Rightarrow> nat \<Rightarrow> (int \<times> int) list \<Rightarrow> int \<Rightarrow> int option \<Rightarrow> string list
    \<Rightarrow> error + (int \<times> int option \<times> string list)" where
  "assemble_loop frags index [] prev_end frag_end assembled =
     Inr (prev_end, frag_end, assembled)"
| "assemble_loop frags index ((frag_start, frag_end') # rest) prev_end frag_end assembled =
     (let diff = frag_start - prev_end in
      if \<not> diff \<ge> 0 then Inl AssertionError
      else if \<not> index < length frags then Inl IndexError
      else assemble_loop frags (Suc index) rest frag_end' (Some frag_end')
             (assembled @ [replicate (nat diff) CHR ''N'', frags ! index]))"

definition assemble_seq ::
  "string list \<Rightarrow> int \<Rightarrow> int \<Rightarrow> (int \<times> int) list \<Rightarrow> error + string" where
  "assemble_seq frags start end' frag_positions =
     (if length frag_positions \<noteq> length frags then Inl AssertionError
      else case assemble_loop frags 0 frag_positions start None [] of
             Inl e \<Rightarrow> Inl e
           | Inr (prev_end, frag_end, assembled) \<Rightarrow>
               (case frag_end of
                  None \<Rightarrow> Inl UnboundLocalError
                | Some fe \<Rightarrow>
                    (let diff = end' - fe in
                     if \<not> diff \<ge> 0 then Inl AssertionError
                     else make_seq (concat (assembled @ [replicate (nat diff) CHR ''N''])))))"



text \<open>Some fragment starts before the end of its predecessor (\<open>prev\<close> for the first).\<close>

fun negative_gap :: "int \<Rightarrow> (int \<times> int) list \<Rightarrow> bool" where
  "negative_gap prev [] = False"
| "negative_gap prev ((s, e) # ps) = (s < prev \<or> negative_gap e ps)"

section \<open>sequence.py: coordinates, the core database and the object store\<close>

text \<open>
  A \<^verbatim>\<open>Coordinate\<close> object. The class is declared in \<^verbatim>\<open>assembly.py\<close>; the
  fields are the ones \<^verbatim>\<open>sequence.py\<close> and \<^verbatim>\<open>related_region.py\<close> read and
  write. \<open>genome\<close> identifies the Genome object the coordinate belongs to, and
  \<open>coord_type\<close> is a key of that genome's coordinate systems. \<^verbatim>\<open>len(coord)\<close> is
  \<open>end - start\<close>.
\<close>

record 'k coordinate =
  genome :: nat
  coord_type :: 'k
  coord_name :: string
  start :: int
  end' :: int
  strand :: int

definition len :: "'k coordinate \<Rightarrow> int" where
  "len c = end' c - start c"

text \<open>An entry of the \<^verbatim>\<open>CoordSystem\<close> dictionary: the attributes the code reads.\<close>

record 'k coord_record =
  name :: 'k
  rank :: int

text \<open>
  What \<^verbatim>\<open>sequence.py\<close> asks of a genome's core database, as parameters:
  \<^item> \<open>coord_system\<close>: the dictionary \<^verbatim>\<open>CoordSystem(species, core_db)\<close>, as the list
    of its items in key order;
  \<^item> \<open>seq_level\<close>: \<^verbatim>\<open>CoordSystem(species, core_db, seq_level=True)\<close>;
  \<^item> \<open>get_coord_conversion\<close>: the function of \<^verbatim>\<open>assembly.py\<close>, from a query
    coordinate and a target coordinate type to the list of (query, target) segment
    pairs;
  \<^item> \<open>dna_substr\<close>: the query on the \<^verbatim>\<open>dna\<close> table for the target segment,
    through \<^verbatim>\<open>asserted_one\<close>, which raises when the query has not exactly one row.
\<close>

record 'k core_db =
  coord_system :: "('k \<times> 'k coord_record) list"
  seq_level :: 'k
  get_coord_conversion :: "'k coordinate \<Rightarrow> 'k \<Rightarrow> ('k coordinate \<times> 'k coordinate) list"
  dna_substr :: "'k coordinate \<Rightarrow> error + string"

text \<open>
  The environment: the core database of every genome (\<^verbatim>\<open>genome.CoreDb\<close>) and the
  constructor of \<^verbatim>\<open>Coordinate\<close> with the arguments \<^verbatim>\<open>_make_coord\<close> gives it
  (genome, coord_name, start, end, strand).
\<close>

record 'k env =
  CoreDb :: "nat \<Rightarrow> 'k core_db"
  Coordinate :: "nat \<Rightarrow> string \<Rightarrow> int \<Rightarrow> int \<Rightarrow> int \<Rightarrow> error + 'k coordinate"

text \<open>
  Coordinate objects are mutable and passed by reference, so they live in a store: a
  list of objects, an object's address being its index. A new object goes to the end.
\<close>

type_synonym 'k store = "'k coordinate list"

definition alloc :: "'k store \<Rightarrow> 'k coordinate \<Rightarrow> nat \<times> 'k store" where
  "alloc h c = (length h, h @ [c])"

text \<open>
  Modelled from the spec: \<^verbatim>\<open>Coordinate.copy\<close> (\<^verbatim>\<open>assembly.py\<close> is not among
  the sources). The specification has \<^verbatim>\<open>copy()\<close> produce a new value, so that no two
  coordinates alias mutable state: a new object with the fields of the old one.
\<close>

definition copy :: "'k store \<Rightarrow> nat \<Rightarrow> nat \<times> 'k store" where
  "copy h a = alloc h (h ! a)"

definition make_coord :: "'k env \<Rightarrow> nat \<Rightarrow> string \<Rightarrow> int \<Rightarrow> int \<Rightarrow> int \<Rightarrow> error + 'k coordinate" where
  "make_coord env genome' coord_name' start' end'' strand' =
     Coordinate env genome' coord_name' start' end'' strand'"

subsection \<open>get_lower_coord_conversion\<close>

text \<open>
  The generator expression of the rank loop: the name of the first key of the
  dictionary whose record has the rank, \<open>None\<close> when there is none.
\<close>

definition coord_type_at :: "('k \<times> 'k coord_record) list \<Rightarrow> int \<Rightarrow> 'k option" where
  "coord_type_at cs r =
     (case filter (\<lambda>key. case map_of cs key of None \<Rightarrow> False | Some rec \<Rightarrow> rank rec = r)
             (map fst cs) of
        [] \<Rightarrow> None
      | key # _ \<Rightarrow> (case map_of cs key of None \<Rightarrow> None | Some rec \<Rightarrow> Some (name rec)))"

text \<open>
  The loop over \<^verbatim>\<open>range(query_rank + 1, seq_level_rank)\<close>; \<open>assemblies\<close> is
  \<open>None\<close> until a conversion has been attempted.
\<close>

fun rank_loop ::
  "'k core_db \<Rightarrow> 'k coordinate \<Rightarrow> int list \<Rightarrow> ('k coordinate \<times> 'k coordinate) list option
    \<Rightarrow> ('k coordinate \<times> 'k coordinate) list option" where
  "rank_loop db coord [] assemblies = assemblies"
| "rank_loop db coord (r # ranks) assemblies =
     (case coord_type_at (coord_system db) r of
        None \<Rightarrow> rank_loop db coord ranks assemblies
      | Some coord_type' \<Rightarrow>
          (let assemblies' = get_coord_conversion db coord coord_type' in
           if assemblies' \<noteq> [] then Some assemblies'
           else rank_loop db coord ranks (Some assemblies')))"

definition get_lower_coord_conversion ::
  "'k core_db \<Rightarrow> 'k coordinate \<Rightarrow> error + ('k coordinate \<times> 'k coordinate) list option" where
  "get_lower_coord_conversion db coord =
     (case map_of (coord_system db) (coord_type coord) of
        None \<Rightarrow> Inl KeyError
      | Some query \<Rightarrow>
          (case map_of (coord_system db) (seq_level db) of
             None \<Rightarrow> Inl KeyError
           | Some seq \<Rightarrow>
               Inr (rank_loop db coord [rank query + 1 .. rank seq - 1] None)))"

subsection \<open>_get_sequence_from_direct_assembly\<close>

text \<open>
  The loop over the segment pairs: one query on the dna table for each, its string made
  a DNA sequence and reverse-complemented when the target is on the reverse strand.
\<close>

fun direct_frags ::
  "'k core_db \<Rightarrow> ('k coordinate \<times> 'k coordinate) list \<Rightarrow> string list \<Rightarrow> (int \<times> int) list
    \<Rightarrow> error + (string list \<times> (int \<times> int) list)" where
  "direct_frags db [] seqs positions = Inr (seqs, positions)"
| "direct_frags db ((q_loc, t_loc) # rest) seqs positions =
     (if strand q_loc \<noteq> 1 then Inl AssertionError
      else case dna_substr db t_loc of
             Inl e \<Rightarrow> Inl e
           | Inr record \<Rightarrow>
               (case make_seq record of
                  Inl e \<Rightarrow> Inl e
                | Inr seq \<Rightarrow>
                    (let seq' = (if strand t_loc = - 1 then rc seq else seq) in
                     direct_frags db rest (seqs @ [seq'])
                       (positions @ [(start q_loc, end' q_loc)]))))"

text \<open>
  The function writes \<^verbatim>\<open>coord.strand = 1\<close> into the object it is given, before
  anything else that can fail; the store it returns has that write also when the
  function raises.
\<close>

definition get_sequence_from_direct_assembly ::
  "'k env \<Rightarrow> 'k store \<Rightarrow> nat \<Rightarrow> 'k store \<times> (error + string)" where
  "get_sequence_from_direct_assembly env h coord =
     (let genome' = genome (h ! coord);
          h1 = h[coord := (h ! coord)\<lparr>strand := 1\<rparr>];
          db = CoreDb env genome';
          coord_type' = seq_level db;
          assemblies = get_coord_conversion db (h1 ! coord) coord_type'
      in if assemblies = [] then (h1, Inl NoItemError)
         else case direct_frags db assemblies [] [] of
                Inl e \<Rightarrow> (h1, Inl e)
              | Inr (seqs, positions) \<Rightarrow>
                  (h1, assemble_seq seqs (start (h1 ! coord)) (end' (h1 ! coord)) positions))"

subsection \<open>_get_sequence_from_lower_assembly\<close>

text \<open>
  The loop over the segment pairs of the intermediate level. The target coordinate of a
  pair is an object of its own, put into the store when it is passed on.
\<close>

fun lower_frags ::
  "'k env \<Rightarrow> 'k store \<Rightarrow> ('k coordinate \<times> 'k coordinate) list \<Rightarrow> string list \<Rightarrow> (int \<times> int) list
    \<Rightarrow> 'k store \<times> (error + (string list \<times> (int \<times> int) list))" where
  "lower_frags env h [] seqs positions = (h, Inr (seqs, positions))"
| "lower_frags env h ((q_loc, t_loc) # rest) seqs positions =
     (let t_strand = strand t_loc;
          (t, h1) = alloc h t_loc;
          (h2, r) = get_sequence_from_direct_assembly env h1 t
      in case r of
           Inl e \<Rightarrow> (h2, Inl e)
         | Inr temp_seq \<Rightarrow>
             (let temp_seq' = (if t_strand = - 1 then rc temp_seq else temp_seq) in
              lower_frags env h2 rest (seqs @ [temp_seq'])
                (positions @ [(start q_loc, end' q_loc)])))"

definition get_sequence_from_lower_assembly ::
  "'k env \<Rightarrow> 'k store \<Rightarrow> nat \<Rightarrow> 'k store \<times> (error + string)" where
  "get_sequence_from_lower_assembly env h coord =
     (case get_lower_coord_conversion (CoreDb env (genome (h ! coord))) (h ! coord) of
        Inl e \<Rightarrow> (h, Inl e)
      | Inr None \<Rightarrow> (h, Inl NoItemError)
      | Inr (Some assemblies) \<Rightarrow>
          (if assemblies = [] then (h, Inl NoItemError)
           else case lower_frags env h assemblies [] [] of
                  (h', Inl e) \<Rightarrow> (h', Inl e)
                | (h', Inr (seqs, positions)) \<Rightarrow>
                    (h', assemble_seq seqs (start (h' ! coord)) (end' (h' ! coord)) positions)))"

subsection \<open>get_sequence\<close>

text \<open>
  \<open>coord\<close> is the address of the caller's Coordinate, or \<open>None\<close>; the other arguments
  are the keyword arguments \<^verbatim>\<open>genome\<close>, \<^verbatim>\<open>coord_name\<close>, \<^verbatim>\<open>start\<close>,
  \<^verbatim>\<open>end\<close> and \<^verbatim>\<open>strand\<close>. The result is the store after the call and the
  sequence or the exception.
\<close>

definition get_sequence ::
  "'k env \<Rightarrow> 'k store \<Rightarrow> nat option \<Rightarrow> nat \<Rightarrow> string \<Rightarrow> int \<Rightarrow> int \<Rightarrow> int
    \<Rightarrow> 'k store \<times> (error + string)" where
  "get_sequence env h coord genome' coord_name' start' end'' strand' =
     (case (case coord of
              None \<Rightarrow> (case make_coord env genome' coord_name' start' end'' 1 of
                         Inl e \<Rightarrow> Inl e
                       | Inr c \<Rightarrow> Inr (alloc h c))
            | Some a \<Rightarrow> Inr (copy h a)) of
        Inl e \<Rightarrow> (h, Inl e)
      | Inr (coord', h1) \<Rightarrow>
          (let strand'' = strand (h1 ! coord');
               (h2, r) = get_sequence_from_direct_assembly env h1 coord';
               (h3, r') = (case r of
                             Inl NoItemError \<Rightarrow> get_sequence_from_lower_assembly env h2 coord'
                           | _ \<Rightarrow> (h2, r))
           in case r' of
                Inl e \<Rightarrow> (h3, Inl e)
              | Inr sequence \<Rightarrow> (h3, Inr (if strand'' = - 1 then rc sequence else sequence))))"

subsection \<open>Notions used to state the properties\<close>

text \<open>
  A rank is quiet for a query coordinate when the rank loop gets nothing from it: no
  coordinate system is registered at the rank, or the conversion to the one registered
  there is empty.
\<close>

definition quiet :: "'k core_db \<Rightarrow> 'k coordinate \<Rightarrow> int \<Rightarrow> bool" where
  "quiet db coord r =
     (case coord_type_at (coord_system db) r of
        None \<Rightarrow> True
      | Some ct \<Rightarrow> get_coord_conversion db coord ct = [])"

text \<open>
  The \<^verbatim>\<open>try\<close>/\<^verbatim>\<open>except NoItemError\<close> of \<^verbatim>\<open>get_sequence\<close> run on a
  coordinate that is alone in the store: the sequence of the direct assembly, or of the
  assembly by rank when the direct one raises \<open>NoItemError\<close>.
\<close>

definition assemble_forward :: "'k env \<Rightarrow> 'k coordinate \<Rightarrow> error + string" where
  "assemble_forward env c =
     (case get_sequence_from_direct_assembly env [c] 0 of
        (h2, Inl NoItemError) \<Rightarrow> snd (get_sequence_from_lower_assembly env h2 0)
      | (h2, r) \<Rightarrow> r)"

text \<open>
  The assembly by rank, read off the segment pairs of the intermediate level: the
  fragment of a pair is the direct assembly of its target coordinate (alone in a
  store), reverse-complemented when the target is on the reverse strand, and its
  position is the interval of its query coordinate. The first exception ends it.
\<close>

fun pieces_by_rank :: "'k env \<Rightarrow> ('k coordinate \<times> 'k coordinate) list \<Rightarrow> error + string list" where
  "pieces_by_rank env [] = Inr []"
| "pieces_by_rank env ((q_loc, t_loc) # rest) =
     (case snd (get_sequence_from_direct_assembly env [t_loc] 0) of
        Inl e \<Rightarrow> Inl e
      | Inr temp_seq \<Rightarrow>
          (case pieces_by_rank env rest of
             Inl e \<Rightarrow> Inl e
           | Inr seqs \<Rightarrow> Inr ((if strand t_loc = - 1 then rc temp_seq else temp_seq) # seqs)))"

definition query_positions :: "('k coordinate \<times> 'k coordinate) list \<Rightarrow> (int \<times> int) list" where
  "query_positions assemblies = map (\<lambda>(q_loc, t_loc). (start q_loc, end' q_loc)) assemblies"

text \<open>
  The coordinate a call of \<^verbatim>\<open>get_sequence\<close> works on, before the copy: the one
  built from the keyword arguments (with the strand \<^verbatim>\<open>_make_coord\<close> is given, 1),
  or the caller's.
\<close>

definition requested ::
  "'k env \<Rightarrow> 'k store \<Rightarrow> nat option \<Rightarrow> nat \<Rightarrow> string \<Rightarrow> int \<Rightarrow> int \<Rightarrow> error + 'k coordinate" where
  "requested env h coord genome' coord_name' start' end'' =
     (case coord of
        None \<Rightarrow> make_coord env genome' coord_name' start' end'' 1
      | Some a \<Rightarrow> Inr (h ! a))"

subsection \<open>A small genome for concrete runs\<close>

text \<open>
  Three coordinate systems, chromosome (rank 1), supercontig (rank 3) and the
  sequence-level contig (rank 4); no system has rank 2. Chromosome 1 maps to the contig
  directly, chromosome 2 only to the supercontig (on the reverse strand), which maps to
  the contig; any other chromosome maps to nothing. The contig reads AACCGGTT.
\<close>

definition demo_conversion :: "string coordinate \<Rightarrow> string \<Rightarrow> (string coordinate \<times> string coordinate) list" where
  "demo_conversion c target =
     (if coord_type c = ''chromosome'' \<and> coord_name c = ''1'' \<and> target = ''contig''
      then [(c, c\<lparr>coord_type := ''contig'', coord_name := ''c1'', strand := 1\<rparr>)]
      else if coord_type c = ''chromosome'' \<and> coord_name c = ''2'' \<and> target = ''supercontig''
      then [(c, c\<lparr>coord_type := ''supercontig'', coord_name := ''s1'', strand := - 1\<rparr>)]
      else if coord_type c = ''supercontig'' \<and> target = ''contig''
      then [(c, c\<lparr>coord_type := ''contig'', coord_name := ''c1'', strand := 1\<rparr>)]
      else [])"

definition demo_db :: "string core_db" where
  "demo_db =
     \<lparr>coord_system =
        [(''chromosome'', \<lparr>name = ''chromosome'', rank = 1\<rparr>),
         (''supercontig'', \<lparr>name = ''supercontig'', rank = 3\<rparr>),
         (''contig'', \<lparr>name = ''contig'', rank = 4\<rparr>)],
      seq_level = ''contig'',
      get_coord_conversion = demo_conversion,
      dna_substr = (\<lambda>t. Inr (take (nat (len t)) (drop (nat (start t)) ''AACCGGTT'')))\<rparr>"

definition demo_env :: "string env" where
  "demo_env =
     \<lparr>CoreDb = (\<lambda>g. demo_db),
      Coordinate = (\<lambda>g n s e st.
        Inr \<lparr>genome = g, coord_type = ''chromosome'', coord_name = n, start = s, end' = e,
             strand = st\<rparr>)\<rparr>"

definition demo_coord :: "string \<Rightarrow> int \<Rightarrow> int \<Rightarrow> int \<Rightarrow> string coordinate" where
  "demo_coord n s e st =
     \<lparr>genome = 0, coord_type = ''chromosome'', coord_name = n, start = s, end' = e, strand = st\<rparr>"

section \<open>related_region.py: syntenic regions\<close>

text \<open>
  A cogent3 sequence is its name and its characters; a Region of
  \<^verbatim>\<open>genome.get_region\<close> is known by its location; \<^verbatim>\<open>Aligned(map, data)\<close> pairs
  a map of alignment columns with a sequence. The type \<open>'m\<close> of maps is left open.
\<close>

record dna =
  seq_name :: string
  seq_str :: string

record 'k region =
  location :: "'k coordinate"

record 'm aligned =
  amap :: 'm
  data :: dna

text \<open>
  What \<^verbatim>\<open>related_region.py\<close> calls and does not define, as parameters. The first
  argument of the genome's methods is the genome.
  \<^item> \<open>make_location\<close>: \<^verbatim>\<open>genome.make_location(coord_name, start, end, strand,
    ensembl_coord=True)\<close>;
  \<^item> \<open>get_region\<close>: \<^verbatim>\<open>genome.get_region(region=loc)\<close>;
  \<^item> \<open>region_Seq\<close>: \<^verbatim>\<open>region.Seq\<close>; \<open>get_annotated_seq\<close>:
    \<^verbatim>\<open>region.get_annotated_seq(feature_types, where_feature)\<close>;
  \<^item> \<open>cigar_line\<close>: the query on \<^verbatim>\<open>genomic_align\<close> for a
    \<^verbatim>\<open>genomic_align_id\<close>, through \<^verbatim>\<open>asserted_one\<close> (the cache of the property
    only saves repeating the query);
  \<^item> \<open>slice_cigar\<close>: \<^verbatim>\<open>cigar.slice_cigar(cigar_line, start, end, by_align)\<close> of
    cogent3, returning a map and a location list;
  \<^item> \<open>map_true\<close>: the truth value of a map in a condition;
  \<^item> \<open>gapped\<close>: the gapped string of \<^verbatim>\<open>Aligned(map, seq)\<close>;
  \<^item> \<open>loc_str\<close>: \<^verbatim>\<open>str(loc)\<close> of a coordinate.
\<close>

record ('k, 'm) compara =
  make_location :: "nat \<Rightarrow> string \<Rightarrow> int \<Rightarrow> int \<Rightarrow> int \<Rightarrow> error + 'k coordinate"
  get_region :: "nat \<Rightarrow> 'k coordinate \<Rightarrow> error + 'k region"
  region_Seq :: "'k region \<Rightarrow> error + dna"
  get_annotated_seq :: "'k region \<Rightarrow> string list \<Rightarrow> string option \<Rightarrow> error + dna"
  cigar_line :: "nat \<Rightarrow> error + string"
  slice_cigar :: "string \<Rightarrow> int \<Rightarrow> int \<Rightarrow> bool \<Rightarrow> error + ('m \<times> int list)"
  map_true :: "'m \<Rightarrow> bool"
  gapped :: "'m \<Rightarrow> string \<Rightarrow> string"
  loc_str :: "'k coordinate \<Rightarrow> string"

text \<open>
  The identifiers a member is created with (\<^verbatim>\<open>identifiers_values\<close>), which
  \<^verbatim>\<open>__init__\<close> copies into \<^verbatim>\<open>_cached\<close>.
\<close>

record identifiers =
  id_name :: string
  id_dnafrag_start :: int
  id_dnafrag_end :: int
  id_dnafrag_strand :: int
  id_genomic_align_id :: nat

text \<open>
  A \<^verbatim>\<open>SyntenicRegion\<close>. The fields from \<open>cached_Region\<close> on are entries of its
  \<^verbatim>\<open>_cached\<close> dictionary; for \<open>Region\<close> and \<open>AlignedSeq\<close>, \<open>None\<close> says that
  the key is absent and \<open>Some None\<close> that it holds \<^verbatim>\<open>None\<close>.
\<close>

record ('k, 'm) syntenic_region =
  sr_genome :: nat
  am_ref_member :: bool
  aln_map :: "'m option"
  aln_loc :: "int list option"
  cached_Region :: "'k region option option"
  cached_AlignedSeq :: "'m aligned option option"
  cached_name :: string
  dnafrag_start :: int
  dnafrag_end :: int
  dnafrag_strand :: int
  genomic_align_id :: nat

text \<open>
  A \<^verbatim>\<open>SyntenicRegions\<close>. \<^verbatim>\<open>members\<close> is the tuple \<^verbatim>\<open>[ref_member] + mems\<close>:
  \<^verbatim>\<open>ref_member\<close> is the object at index 0. \<open>cached_CigarStart\<close> and
  \<open>cached_CigarEnd\<close> are the entries of \<^verbatim>\<open>_cached\<close>, \<open>do_rc\<close> is \<^verbatim>\<open>_do_rc\<close>.
  The methods of a member that read or write its parent take the parent and the index
  of the member, and return the parent; a method that raises returns the state it
  leaves behind.
\<close>

record ('k, 'm) syntenic_regions =
  ref_location :: "'k coordinate"
  members :: "('k, 'm) syntenic_region list"
  cached_CigarStart :: "int option"
  cached_CigarEnd :: "int option"
  do_rc :: "bool option"

text \<open>
  Modelled from the spec: \<^verbatim>\<open>Coordinate.shifted\<close> (\<^verbatim>\<open>assembly.py\<close> is not among
  the sources). A shift by N translates both start and end by N.
\<close>

definition shifted :: "'k coordinate \<Rightarrow> int \<Rightarrow> 'k coordinate" where
  "shifted c n = c\<lparr>start := start c + n, end' := end' c + n\<rparr>"

subsection \<open>SyntenicRegion.__init__ and SyntenicRegions.__init__\<close>

text \<open>
  The location given to a member is a Coordinate (it has no attribute
  \<^verbatim>\<open>location\<close>), so its region comes from \<^verbatim>\<open>genome.get_region\<close>.
\<close>

definition SyntenicRegion_init ::
  "('k, 'm) compara \<Rightarrow> nat \<Rightarrow> identifiers \<Rightarrow> bool \<Rightarrow> 'k coordinate option
    \<Rightarrow> error + ('k, 'm) syntenic_region" where
  "SyntenicRegion_init env genome' identifiers_values am_ref_member' location' =
     (let self = \<lparr>sr_genome = genome', am_ref_member = am_ref_member', aln_map = None,
                   aln_loc = None, cached_Region = None, cached_AlignedSeq = None,
                   cached_name = id_name identifiers_values,
                   dnafrag_start = id_dnafrag_start identifiers_values,
                   dnafrag_end = id_dnafrag_end identifiers_values,
                   dnafrag_strand = id_dnafrag_strand identifiers_values,
                   genomic_align_id = id_genomic_align_id identifiers_values\<rparr>
      in case location' of
           None \<Rightarrow> Inr self
         | Some loc \<Rightarrow>
             (case get_region env genome' loc of
                Inl e \<Rightarrow> Inl e
              | Inr region \<Rightarrow> Inr (self\<lparr>cached_Region := Some (Some region)\<rparr>)))"

fun init_loop ::
  "('k, 'm) compara \<Rightarrow> 'k coordinate \<Rightarrow> (nat \<times> identifiers) list
    \<Rightarrow> ('k, 'm) syntenic_region option \<Rightarrow> ('k, 'm) syntenic_region list
    \<Rightarrow> error + (('k, 'm) syntenic_region option \<times> ('k, 'm) syntenic_region list)" where
  "init_loop env ref_location' [] ref_member mems = Inr (ref_member, mems)"
| "init_loop env ref_location' ((genome', data') # rest) ref_member mems =
     (if genome' = genome ref_location'
      then (case SyntenicRegion_init env genome' data' True (Some ref_location') of
              Inl e \<Rightarrow> Inl e
            | Inr m \<Rightarrow> init_loop env ref_location' rest (Some m) mems)
      else (case SyntenicRegion_init env genome' data' False None of
              Inl e \<Rightarrow> Inl e
            | Inr m \<Rightarrow> init_loop env ref_location' rest ref_member (mems @ [m])))"

definition SyntenicRegions_init ::
  "('k, 'm) compara \<Rightarrow> (nat \<times> identifiers) list \<Rightarrow> 'k coordinate
    \<Rightarrow> error + ('k, 'm) syntenic_regions" where
  "SyntenicRegions_init env members' ref_location' =
     (case init_loop env ref_location' members' None [] of
        Inl e \<Rightarrow> Inl e
      | Inr (None, mems) \<Rightarrow> Inl AssertionError
      | Inr (Some ref_member, mems) \<Rightarrow>
          Inr \<lparr>ref_location = ref_location', members = ref_member # mems,
               cached_CigarStart = None, cached_CigarEnd = None, do_rc = None\<rparr>)"

subsection \<open>_make_ref_map\<close>

text \<open>
  The bounds of the slice of the reference, in sequence offsets of the block: the
  assignments to \<^verbatim>\<open>relative_start\<close> and \<^verbatim>\<open>relative_end\<close>, made a second time
  when the block is not on strand 1.
\<close>

definition relative_bounds :: "'k coordinate \<Rightarrow> 'k coordinate \<Rightarrow> int \<times> int" where
  "relative_bounds block_loc ref_location' =
     (let relative_start = start ref_location' - start block_loc;
          relative_end = relative_start + len ref_location'
      in if strand block_loc \<noteq> 1
         then (let relative_start' = len block_loc - relative_end;
                   relative_end' = relative_start' + len ref_location'
               in (relative_start', relative_end'))
         else (relative_start, relative_end))"

definition make_ref_map ::
  "('k, 'm) compara \<Rightarrow> ('k, 'm) syntenic_regions \<Rightarrow> nat
    \<Rightarrow> (error + unit) \<times> ('k, 'm) syntenic_regions" where
  "make_ref_map env p i =
     (let self = members p ! i in
      if (case aln_map self of None \<Rightarrow> False | Some m \<Rightarrow> map_true env m) \<and> aln_loc self \<noteq> None
      then (Inr (), p)
      else
        case make_location env (sr_genome self) (cached_name self) (dnafrag_start self)
               (dnafrag_end self) (dnafrag_strand self) of
          Inl e \<Rightarrow> (Inl e, p)
        | Inr block_loc \<Rightarrow>
            (let ref_location' = ref_location p;
                 (relative_start, relative_end) = relative_bounds block_loc ref_location'
             in case cigar_line env (genomic_align_id self) of
                  Inl e \<Rightarrow> (Inl e, p)
                | Inr cigar_line' \<Rightarrow>
                    (case slice_cigar env cigar_line' relative_start relative_end False of
                       Inl e \<Rightarrow> (Inl e, p)
                     | Inr (aln_map', aln_loc') \<Rightarrow>
                         (let self1 = self\<lparr>aln_map := Some aln_map', aln_loc := Some aln_loc'\<rparr>;
                              region_loc = ref_location'\<lparr>strand := strand block_loc\<rparr>
                          in case get_region env (sr_genome self) region_loc of
                               Inl e \<Rightarrow> (Inl e, p\<lparr>members := (members p)[i := self1]\<rparr>)
                             | Inr region \<Rightarrow>
                                 (Inr (),
                                  p\<lparr>members := (members p)
                                       [i := self1\<lparr>cached_Region := Some (Some region)\<rparr>]\<rparr>)))))"

subsection \<open>_populate_ref, CigarStart and CigarEnd\<close>

text \<open>
  \<^verbatim>\<open>ref_member\<close> is created with \<^verbatim>\<open>am_ref_member=True\<close>, so that its
  \<^verbatim>\<open>_make_map_func\<close> is \<^verbatim>\<open>_make_ref_map\<close>. Indexing \<^verbatim>\<open>aln_loc\<close> raises
  \<open>IndexError\<close> on a list that is too short.
\<close>

definition populate_ref ::
  "('k, 'm) compara \<Rightarrow> ('k, 'm) syntenic_regions \<Rightarrow> (error + unit) \<times> ('k, 'm) syntenic_regions" where
  "populate_ref env p =
     (case make_ref_map env p 0 of
        (Inl e, p1) \<Rightarrow> (Inl e, p1)
      | (Inr u, p1) \<Rightarrow>
          (case aln_loc (members p1 ! 0) of
             None \<Rightarrow> (Inl TypeError, p1)
           | Some [] \<Rightarrow> (Inl IndexError, p1)
           | Some (c0 # rest) \<Rightarrow>
               (let p2 = p1\<lparr>cached_CigarStart := Some c0\<rparr> in
                case rest of
                  [] \<Rightarrow> (Inl IndexError, p2)
                | c1 # rest' \<Rightarrow> (Inr (), p2\<lparr>cached_CigarEnd := Some c1\<rparr>))))"

text \<open>
  Modelled from the spec: \<^verbatim>\<open>LazyRecord._get_cached_value\<close> (\<^verbatim>\<open>util.py\<close> is not
  among the sources). The specification describes a value computed once for an object
  and kept under the attribute's name: when the key is absent the function that fills
  it is called, then the entry is returned.
\<close>

definition CigarStart ::
  "('k, 'm) compara \<Rightarrow> ('k, 'm) syntenic_regions \<Rightarrow> (error + int) \<times> ('k, 'm) syntenic_regions" where
  "CigarStart env p =
     (case cached_CigarStart p of
        Some v \<Rightarrow> (Inr v, p)
      | None \<Rightarrow>
          (case populate_ref env p of
             (Inl e, p1) \<Rightarrow> (Inl e, p1)
           | (Inr u, p1) \<Rightarrow>
               (case cached_CigarStart p1 of
                  None \<Rightarrow> (Inl KeyError, p1)
                | Some v \<Rightarrow> (Inr v, p1))))"

definition CigarEnd ::
  "('k, 'm) compara \<Rightarrow> ('k, 'm) syntenic_regions \<Rightarrow> (error + int) \<times> ('k, 'm) syntenic_regions" where
  "CigarEnd env p =
     (case cached_CigarEnd p of
        Some v \<Rightarrow> (Inr v, p)
      | None \<Rightarrow>
          (case populate_ref env p of
             (Inl e, p1) \<Rightarrow> (Inl e, p1)
           | (Inr u, p1) \<Rightarrow>
               (case cached_CigarEnd p1 of
                  None \<Rightarrow> (Inl KeyError, p1)
                | Some v \<Rightarrow> (Inr v, p1))))"

subsection \<open>_make_map_from_ref\<close>

text \<open>
  The body of the \<^verbatim>\<open>try\<close>: the region of the member, or the exception, and the
  state at that point.
\<close>

definition make_map_from_ref_try ::
  "('k, 'm) compara \<Rightarrow> ('k, 'm) syntenic_regions \<Rightarrow> nat
    \<Rightarrow> (error + 'k region) \<times> ('k, 'm) syntenic_regions" where
  "make_map_from_ref_try env p i =
     (case cigar_line env (genomic_align_id (members p ! i)) of
        Inl e \<Rightarrow> (Inl e, p)
      | Inr cigar_line' \<Rightarrow>
          (case CigarStart env p of
             (Inl e, p1) \<Rightarrow> (Inl e, p1)
           | (Inr cigar_start, p1) \<Rightarrow>
               (case CigarEnd env p1 of
                  (Inl e, p2) \<Rightarrow> (Inl e, p2)
                | (Inr cigar_end, p2) \<Rightarrow>
                    (case slice_cigar env cigar_line' cigar_start cigar_end True of
                       Inl e \<Rightarrow> (Inl e, p2)
                     | Inr (aln_map', aln_loc') \<Rightarrow>
                         (let self = members p2 ! i;
                              self1 = self\<lparr>aln_map := Some aln_map', aln_loc := Some aln_loc'\<rparr>;
                              p3 = p2\<lparr>members := (members p2)[i := self1]\<rparr>
                          in case make_location env (sr_genome self) (cached_name self)
                                    (dnafrag_start self) (dnafrag_end self) (dnafrag_strand self) of
                               Inl e \<Rightarrow> (Inl e, p3)
                             | Inr block_loc \<Rightarrow>
                                 (case aln_loc' of
                                    [] \<Rightarrow> (Inl IndexError, p3)
                                  | [relative_start] \<Rightarrow> (Inl IndexError, p3)
                                  | relative_start # relative_end # rest \<Rightarrow>
                                      (let loc = block_loc\<lparr>end' := start block_loc
                                                             + (relative_end - relative_start)\<rparr>;
                                           shift = (if strand block_loc \<noteq> 1
                                                    then len block_loc - relative_end
                                                    else relative_start);
                                           loc' = shifted loc shift
                                       in case get_region env (sr_genome self) loc' of
                                            Inl e \<Rightarrow> (Inl e, p3)
                                          | Inr region \<Rightarrow> (Inr region, p3))))))))"

text \<open>Only \<open>IndexError\<close> is caught; the region of the member is then \<^verbatim>\<open>None\<close>.\<close>

definition make_map_from_ref ::
  "('k, 'm) compara \<Rightarrow> ('k, 'm) syntenic_regions \<Rightarrow> nat
    \<Rightarrow> (error + unit) \<times> ('k, 'm) syntenic_regions" where
  "make_map_from_ref env p i =
     (let self = members p ! i in
      if (case aln_loc self of None \<Rightarrow> False | Some l \<Rightarrow> l \<noteq> []) \<and> aln_map self \<noteq> None
      then (Inr (), p)
      else
        case make_map_from_ref_try env p i of
          (Inr region, p1) \<Rightarrow>
            (Inr (), p1\<lparr>members := (members p1)
                           [i := (members p1 ! i)\<lparr>cached_Region := Some (Some region)\<rparr>]\<rparr>)
        | (Inl IndexError, p1) \<Rightarrow>
            (Inr (), p1\<lparr>members := (members p1)
                           [i := (members p1 ! i)\<lparr>cached_Region := Some None\<rparr>]\<rparr>)
        | (Inl e, p1) \<Rightarrow> (Inl e, p1))"

text \<open>\<^verbatim>\<open>_make_map_func\<close>, chosen by \<^verbatim>\<open>am_ref_member\<close> when the member is created.\<close>

definition make_map_func ::
  "('k, 'm) compara \<Rightarrow> ('k, 'm) syntenic_regions \<Rightarrow> nat
    \<Rightarrow> (error + unit) \<times> ('k, 'm) syntenic_regions" where
  "make_map_func env p i =
     (if am_ref_member (members p ! i) then make_ref_map env p i else make_map_from_ref env p i)"

subsection \<open>_make_aligned, AlignedSeq, get_annotated_aligned and location\<close>

text \<open>
  \<^verbatim>\<open>feature_types\<close> is a list of names, empty when the caller gives none (or
  \<^verbatim>\<open>None\<close>).
\<close>

definition make_aligned ::
  "('k, 'm) compara \<Rightarrow> ('k, 'm) syntenic_regions \<Rightarrow> nat \<Rightarrow> string list \<Rightarrow> string option
    \<Rightarrow> (error + unit) \<times> ('k, 'm) syntenic_regions" where
  "make_aligned env p i feature_types where_feature =
     (case (if aln_loc (members p ! i) = None \<or> aln_map (members p ! i) = None
            then make_map_func env p i else (Inr (), p)) of
        (Inl e, p1) \<Rightarrow> (Inl e, p1)
      | (Inr u, p1) \<Rightarrow>
          (let self = members p1 ! i in
           case cached_Region self of
             None \<Rightarrow> (Inl KeyError, p1)
           | Some None \<Rightarrow>
               (Inr (), p1\<lparr>members := (members p1)[i := self\<lparr>cached_AlignedSeq := Some None\<rparr>]\<rparr>)
           | Some (Some region) \<Rightarrow>
               (case (if feature_types \<noteq> []
                      then get_annotated_seq env region feature_types where_feature
                      else region_Seq env region) of
                  Inl e \<Rightarrow> (Inl e, p1)
                | Inr seq \<Rightarrow>
                    (case aln_map self of
                       None \<Rightarrow> (Inl TypeError, p1)
                     | Some m \<Rightarrow>
                         (let gapped_seq = \<lparr>amap = m, data = seq\<rparr> in
                          (Inr (),
                           p1\<lparr>members := (members p1)
                                [i := self\<lparr>cached_AlignedSeq := Some (Some gapped_seq)\<rparr>]\<rparr>))))))"

definition AlignedSeq ::
  "('k, 'm) compara \<Rightarrow> ('k, 'm) syntenic_regions \<Rightarrow> nat
    \<Rightarrow> (error + 'm aligned option) \<times> ('k, 'm) syntenic_regions" where
  "AlignedSeq env p i =
     (case cached_AlignedSeq (members p ! i) of
        Some v \<Rightarrow> (Inr v, p)
      | None \<Rightarrow>
          (case make_aligned env p i [] None of
             (Inl e, p1) \<Rightarrow> (Inl e, p1)
           | (Inr u, p1) \<Rightarrow>
               (case cached_AlignedSeq (members p1 ! i) of
                  None \<Rightarrow> (Inl KeyError, p1)
                | Some v \<Rightarrow> (Inr v, p1))))"

definition get_Region ::
  "('k, 'm) compara \<Rightarrow> ('k, 'm) syntenic_regions \<Rightarrow> nat
    \<Rightarrow> (error + 'k region option) \<times> ('k, 'm) syntenic_regions" where
  "get_Region env p i =
     (case cached_Region (members p ! i) of
        Some v \<Rightarrow> (Inr v, p)
      | None \<Rightarrow>
          (case make_map_func env p i of
             (Inl e, p1) \<Rightarrow> (Inl e, p1)
           | (Inr u, p1) \<Rightarrow>
               (case cached_Region (members p1 ! i) of
                  None \<Rightarrow> (Inl KeyError, p1)
                | Some v \<Rightarrow> (Inr v, p1))))"

definition get_annotated_aligned ::
  "('k, 'm) compara \<Rightarrow> ('k, 'm) syntenic_regions \<Rightarrow> nat \<Rightarrow> string list \<Rightarrow> string option
    \<Rightarrow> (error + 'm aligned option) \<times> ('k, 'm) syntenic_regions" where
  "get_annotated_aligned env p i feature_types where_feature =
     (case get_Region env p i of
        (Inl e, p1) \<Rightarrow> (Inl e, p1)
      | (Inr None, p1) \<Rightarrow> (Inr None, p1)
      | (Inr (Some region), p1) \<Rightarrow>
          (case make_aligned env p1 i feature_types where_feature of
             (Inl e, p2) \<Rightarrow> (Inl e, p2)
           | (Inr u, p2) \<Rightarrow> AlignedSeq env p2 i))"

text \<open>The property \<^verbatim>\<open>location\<close>: the location of the region, which must not be None.\<close>

definition get_location ::
  "('k, 'm) compara \<Rightarrow> ('k, 'm) syntenic_regions \<Rightarrow> nat
    \<Rightarrow> (error + 'k coordinate) \<times> ('k, 'm) syntenic_regions" where
  "get_location env p i =
     (case get_Region env p i of
        (Inl e, p1) \<Rightarrow> (Inl e, p1)
      | (Inr None, p1) \<Rightarrow> (Inl AttributeError, p1)
      | (Inr (Some region), p1) \<Rightarrow> (Inr (location region), p1))"

subsection \<open>_get_rc_state\<close>

definition get_rc_state ::
  "('k, 'm) compara \<Rightarrow> ('k, 'm) syntenic_regions \<Rightarrow> (error + bool) \<times> ('k, 'm) syntenic_regions" where
  "get_rc_state env p =
     (case do_rc p of
        Some b \<Rightarrow> (Inr b, p)
      | None \<Rightarrow>
          (case populate_ref env p of
             (Inl e, p1) \<Rightarrow> (Inl e, p1)
           | (Inr u, p1) \<Rightarrow>
               (case cached_Region (members p1 ! 0) of
                  None \<Rightarrow> (Inl KeyError, p1)
                | Some None \<Rightarrow> (Inl AttributeError, p1)
                | Some (Some region) \<Rightarrow>
                    (let inferred = strand (location region);
                         b = (strand (ref_location p1) \<noteq> inferred)
                     in (Inr b, p1\<lparr>do_rc := Some b\<rparr>)))))"

subsection \<open>get_alignment\<close>

text \<open>
  An alignment is the list of its rows, a name and a gapped string each.
  \<^verbatim>\<open>Alignment(data=seqs)\<close> of cogent3 takes the gapped string of every Aligned; it
  raises \<open>ValueError\<close> when two sequences have the same name, and then \<open>DataError\<close>
  when the strings differ in length.
\<close>

type_synonym alignment = "(string \<times> string) list"

definition Alignment :: "('k, 'm) compara \<Rightarrow> (string \<times> 'm aligned) list \<Rightarrow> error + alignment" where
  "Alignment env seqs =
     (let rows = map (\<lambda>(name, seq). (name, gapped env (amap seq) (seq_str (data seq)))) seqs in
      if \<not> distinct (map fst seqs) then Inl ValueError
      else case rows of
             [] \<Rightarrow> Inr rows
           | row # rest \<Rightarrow>
               (if list_all (\<lambda>r. length (snd r) = length (snd row)) rest then Inr rows
                else Inl DataError))"

text \<open>\<^verbatim>\<open>aln.rc()\<close>: every row is reverse-complemented, under its name.\<close>

definition aln_rc :: "alignment \<Rightarrow> alignment" where
  "aln_rc aln = map (\<lambda>(name, s). (name, rc s)) aln"

text \<open>
  \<^verbatim>\<open>aln.filtered(predicate)\<close>: the columns of the alignment (the tuples of the
  characters the rows have at a position) for which the predicate holds are kept, in
  order. \<open>columns\<close> reads the columns of an alignment whose rows have the length of the
  first one.
\<close>

definition columns :: "alignment \<Rightarrow> string list" where
  "columns aln =
     (case aln of
        [] \<Rightarrow> []
      | row # rest \<Rightarrow> map (\<lambda>j. map (\<lambda>(name, s). s ! j) aln) [0..<length (snd row)])"

definition filtered :: "(string \<Rightarrow> bool) \<Rightarrow> alignment \<Rightarrow> alignment" where
  "filtered predicate aln =
     (case aln of
        [] \<Rightarrow> []
      | row # rest \<Rightarrow>
          (let keep = filter (\<lambda>j. predicate (map (\<lambda>(name, s). s ! j) aln)) [0..<length (snd row)]
           in map (\<lambda>(name, s). (name, map (\<lambda>j. s ! j) keep)) aln))"

text \<open>The predicate of \<^verbatim>\<open>get_alignment\<close>: \<^verbatim>\<open>set(x) != set('-')\<close>.\<close>

definition not_gap_only :: "string \<Rightarrow> bool" where
  "not_gap_only x = (set x \<noteq> {CHR ''-''})"

text \<open>
  The loop over the members, by index. The name given to a sequence is written into
  the Aligned object, which is the one the member has cached.
\<close>

fun alignment_loop ::
  "('k, 'm) compara \<Rightarrow> ('k, 'm) syntenic_regions \<Rightarrow> nat list \<Rightarrow> string list \<Rightarrow> string option
    \<Rightarrow> (string \<times> 'm aligned) list
    \<Rightarrow> (error + (string \<times> 'm aligned) list) \<times> ('k, 'm) syntenic_regions" where
  "alignment_loop env p [] feature_types where_feature seqs = (Inr seqs, p)"
| "alignment_loop env p (i # rest) feature_types where_feature seqs =
     (case (if feature_types \<noteq> [] then get_annotated_aligned env p i feature_types where_feature
            else AlignedSeq env p i) of
        (Inl e, p1) \<Rightarrow> (Inl e, p1)
      | (Inr None, p1) \<Rightarrow> alignment_loop env p1 rest feature_types where_feature seqs
      | (Inr (Some seq), p1) \<Rightarrow>
          (let name = seq_name (data seq) in
           case get_rc_state env p1 of
             (Inl e, p2) \<Rightarrow> (Inl e, p2)
           | (Inr rc', p2) \<Rightarrow>
               (case (if rc'
                      then (case get_location env p2 i of
                              (Inl e, p3) \<Rightarrow> (Inl e, p3)
                            | (Inr loc, p3) \<Rightarrow>
                                (Inr (loc_str env (loc\<lparr>strand := strand loc * - 1\<rparr>)), p3))
                      else (Inr name, p2)) of
                  (Inl e, p3) \<Rightarrow> (Inl e, p3)
                | (Inr name', p3) \<Rightarrow>
                    (let seq' = seq\<lparr>data := (data seq)\<lparr>seq_name := name'\<rparr>\<rparr>;
                         p4 = p3\<lparr>members := (members p3)
                                 [i := (members p3 ! i)\<lparr>cached_AlignedSeq := Some (Some seq')\<rparr>]\<rparr>
                     in alignment_loop env p4 rest feature_types where_feature
                          (seqs @ [(name', seq')])))))"

definition get_alignment ::
  "('k, 'm) compara \<Rightarrow> ('k, 'm) syntenic_regions \<Rightarrow> string list \<Rightarrow> string option \<Rightarrow> bool
    \<Rightarrow> (error + alignment) \<times> ('k, 'm) syntenic_regions" where
  "get_alignment env p feature_types where_feature omit_redundant =
     (case alignment_loop env p [0..<length (members p)] feature_types where_feature [] of
        (Inl e, p1) \<Rightarrow> (Inl e, p1)
      | (Inr seqs, p1) \<Rightarrow>
          (case Alignment env seqs of
             Inl e \<Rightarrow> (Inl e, p1)
           | Inr aln \<Rightarrow>
               (case get_rc_state env p1 of
                  (Inl e, p2) \<Rightarrow> (Inl e, p2)
                | (Inr rc', p2) \<Rightarrow>
                    (let aln1 = (if rc' then aln_rc aln else aln);
                         aln2 = (if omit_redundant then filtered not_gap_only aln1 else aln1)
                     in (Inr aln2, p2)))))"

subsection \<open>Notions used to state the properties of a block\<close>

text \<open>
  The state \<^verbatim>\<open>SyntenicRegions.__init__\<close> leaves: the reference member first, with
  the region of the reference location cached, then the other members with nothing
  cached; no map computed, no bound and no orientation cached.
\<close>

definition fresh_member :: "('k, 'm) syntenic_region \<Rightarrow> bool" where
  "fresh_member m =
     (\<not> am_ref_member m \<and> aln_map m = None \<and> aln_loc m = None \<and> cached_Region m = None
      \<and> cached_AlignedSeq m = None)"

definition fresh_ref_member :: "('k, 'm) syntenic_region \<Rightarrow> bool" where
  "fresh_ref_member m =
     (am_ref_member m \<and> aln_map m = None \<and> aln_loc m = None
      \<and> (case cached_Region m of Some (Some region) \<Rightarrow> True | _ \<Rightarrow> False)
      \<and> cached_AlignedSeq m = None)"

definition fresh_block :: "('k, 'm) syntenic_regions \<Rightarrow> bool" where
  "fresh_block p =
     (case members p of
        [] \<Rightarrow> False
      | r # ms \<Rightarrow> fresh_ref_member r \<and> list_all fresh_member ms
          \<and> cached_CigarStart p = None \<and> cached_CigarEnd p = None \<and> do_rc p = None)"

text \<open>
  The sequence offset in the block at which the slice of the reference starts: the
  offset of the reference location in the block, counted from the end of the block
  when the block is on the reverse strand.
\<close>

definition ref_start :: "'k coordinate \<Rightarrow> 'k coordinate \<Rightarrow> int" where
  "ref_start block_loc ref_location' =
     (if strand block_loc \<noteq> 1
      then len block_loc - (start ref_location' - start block_loc + len ref_location')
      else start ref_location' - start block_loc)"

text \<open>
  What the calls a member makes return, without the caches. For the reference member:
  the block location, the operator string, its slice by sequence offsets and the
  region of the reference location on the strand of the block.
\<close>

definition ref_resolve ::
  "('k, 'm) compara \<Rightarrow> 'k coordinate \<Rightarrow> ('k, 'm) syntenic_region
    \<Rightarrow> error + ('m \<times> int list \<times> 'k region)" where
  "ref_resolve env ref_location' self =
     (case make_location env (sr_genome self) (cached_name self) (dnafrag_start self)
             (dnafrag_end self) (dnafrag_strand self) of
        Inl e \<Rightarrow> Inl e
      | Inr block_loc \<Rightarrow>
          (let relative_start = ref_start block_loc ref_location'
           in case cigar_line env (genomic_align_id self) of
                Inl e \<Rightarrow> Inl e
              | Inr cigar_line' \<Rightarrow>
                  (case slice_cigar env cigar_line' relative_start
                          (relative_start + len ref_location') False of
                     Inl e \<Rightarrow> Inl e
                   | Inr (m, l) \<Rightarrow>
                       (case get_region env (sr_genome self)
                               (ref_location'\<lparr>strand := strand block_loc\<rparr>) of
                          Inl e \<Rightarrow> Inl e
                        | Inr region \<Rightarrow> Inr (m, l, region)))))"

text \<open>
  For another member, given the column bounds: the operator string, its slice by
  alignment columns, the block location and the region of the sequence offsets the
  slice reports; \<open>IndexError\<close> when the slice reports fewer than two.
\<close>

definition member_resolve ::
  "('k, 'm) compara \<Rightarrow> int \<Rightarrow> int \<Rightarrow> ('k, 'm) syntenic_region
    \<Rightarrow> error + ('m \<times> int list \<times> 'k region)" where
  "member_resolve env col_lo col_hi self =
     (case cigar_line env (genomic_align_id self) of
        Inl e \<Rightarrow> Inl e
      | Inr cigar_line' \<Rightarrow>
          (case slice_cigar env cigar_line' col_lo col_hi True of
             Inl e \<Rightarrow> Inl e
           | Inr (m, l) \<Rightarrow>
               (case make_location env (sr_genome self) (cached_name self) (dnafrag_start self)
                       (dnafrag_end self) (dnafrag_strand self) of
                  Inl e \<Rightarrow> Inl e
                | Inr block_loc \<Rightarrow>
                    (case l of
                       [] \<Rightarrow> Inl IndexError
                     | [relative_start] \<Rightarrow> Inl IndexError
                     | relative_start # relative_end # rest \<Rightarrow>
                         (case get_region env (sr_genome self)
                                 (shifted
                                    (block_loc\<lparr>end' := start block_loc
                                                  + (relative_end - relative_start)\<rparr>)
                                    (if strand block_loc \<noteq> 1
                                     then len block_loc - relative_end
                                     else relative_start)) of
                            Inl e \<Rightarrow> Inl e
                          | Inr region \<Rightarrow> Inr (m, l, region))))))"

text \<open>The sequence asked of a region, annotated when feature types are given.\<close>

definition region_seq ::
  "('k, 'm) compara \<Rightarrow> 'k region \<Rightarrow> string list \<Rightarrow> string option \<Rightarrow> error + dna" where
  "region_seq env region feature_types where_feature =
     (if feature_types \<noteq> [] then get_annotated_seq env region feature_types where_feature
      else region_Seq env region)"

text \<open>
  The name and the Aligned object a member contributes, from its map, its region and
  its sequence: the name of the sequence, or the location with the strand flipped when
  the block is to be reverse-complemented.
\<close>

definition row_of ::
  "('k, 'm) compara \<Rightarrow> bool \<Rightarrow> 'm \<Rightarrow> 'k region \<Rightarrow> dna \<Rightarrow> string \<times> 'm aligned" where
  "row_of env flip m region seq =
     (let name = (if flip
                  then loc_str env ((location region)\<lparr>strand := strand (location region) * - 1\<rparr>)
                  else seq_name seq)
      in (name, \<lparr>amap = m, data = seq\<lparr>seq_name := name\<rparr>\<rparr>))"

text \<open>
  The members of a list that resolve, in order, each with its map, its region and its
  sequence: a member whose calls raise \<open>IndexError\<close> is left out, any other exception
  is the result.
\<close>

fun member_parts ::
  "('k, 'm) compara \<Rightarrow> int \<Rightarrow> int \<Rightarrow> string list \<Rightarrow> string option
    \<Rightarrow> ('k, 'm) syntenic_region list \<Rightarrow> error + ('m \<times> 'k region \<times> dna) list" where
  "member_parts env col_lo col_hi feature_types where_feature [] = Inr []"
| "member_parts env col_lo col_hi feature_types where_feature (m # ms) =
     (case member_resolve env col_lo col_hi m of
        Inl e \<Rightarrow>
          (if e = IndexError
           then member_parts env col_lo col_hi feature_types where_feature ms
           else Inl e)
      | Inr (am, l, region) \<Rightarrow>
          (case region_seq env region feature_types where_feature of
             Inl e \<Rightarrow> Inl e
           | Inr seq \<Rightarrow>
               (case member_parts env col_lo col_hi feature_types where_feature ms of
                  Inl e \<Rightarrow> Inl e
                | Inr parts \<Rightarrow> Inr ((am, region, seq) # parts))))"

text \<open>The rows they contribute.\<close>

definition member_rows ::
  "('k, 'm) compara \<Rightarrow> int \<Rightarrow> int \<Rightarrow> bool \<Rightarrow> string list \<Rightarrow> string option
    \<Rightarrow> ('k, 'm) syntenic_region list \<Rightarrow> error + (string \<times> 'm aligned) list" where
  "member_rows env col_lo col_hi flip feature_types where_feature ms =
     (case member_parts env col_lo col_hi feature_types where_feature ms of
        Inl e \<Rightarrow> Inl e
      | Inr parts \<Rightarrow> Inr (map (\<lambda>(am, region, seq). row_of env flip am region seq) parts))"

text \<open>
  What \<^verbatim>\<open>get_alignment\<close> does with the alignment it has built: reverse complement
  when the block is to be flipped, then the filter when it is asked for.
\<close>

definition oriented :: "bool \<Rightarrow> bool \<Rightarrow> alignment \<Rightarrow> alignment" where
  "oriented flip omit_redundant aln =
     (let aln1 = (if flip then aln_rc aln else aln) in
      if omit_redundant then filtered not_gap_only aln1 else aln1)"

text \<open>Two states of a block that differ at most in the member of one index.\<close>

definition differ_at ::
  "('k, 'm) syntenic_regions \<Rightarrow> ('k, 'm) syntenic_regions \<Rightarrow> nat \<Rightarrow> bool" where
  "differ_at p p' i = (p' = p\<lparr>members := (members p)[i := members p' ! i]\<rparr>)"

subsection \<open>A small alignment block for concrete runs\<close>

text \<open>
  Maps are lists of columns, \<open>True\<close> for a column that holds a base and \<open>False\<close> for
  a gap; the gapped string fills the bases in. The slicer below reads operator strings
  whose runs all have length one (\<^verbatim>\<open>M\<close> for a base, \<^verbatim>\<open>D\<close> for a gap). Sliced by
  alignment columns, it returns the columns of the range and the range of sequence
  offsets they hold, the empty list when they hold no base; sliced by sequence
  offsets, the columns from the first to the last base of the range and their column
  range.
\<close>

fun demo_gapped :: "bool list \<Rightarrow> string \<Rightarrow> string" where
  "demo_gapped [] s = []"
| "demo_gapped (False # m) s = CHR ''-'' # demo_gapped m s"
| "demo_gapped (True # m) [] = CHR ''?'' # demo_gapped m []"
| "demo_gapped (True # m) (c # s) = c # demo_gapped m s"

definition demo_slice_cigar :: "string \<Rightarrow> int \<Rightarrow> int \<Rightarrow> bool \<Rightarrow> error + (bool list \<times> int list)" where
  "demo_slice_cigar cigar_text start' end'' by_align =
     (let cols = map (\<lambda>c. c = CHR ''M'') cigar_text in
      if by_align then
        (let sl = take (nat (end'' - start')) (drop (nat start') cols);
             s0 = int (length (filter id (take (nat start') cols)));
             n = int (length (filter id sl))
         in Inr (sl, if n = 0 then [] else [s0, s0 + n]))
      else
        (let pos = filter (\<lambda>j. cols ! j) [0..<length cols] in
         if 0 \<le> start' \<and> start' < end'' \<and> nat end'' \<le> length pos
         then (let a = pos ! nat start'; b = Suc (pos ! (nat end'' - 1)) in
               Inr (take (b - a) (drop a cols), [int a, int b]))
         else Inl (OtherError ''slice'')))"

text \<open>
  Genomes 0, 1 and 2 have one chromosome each; genome 3 has no region to give and
  genome 4 no sequence (both raise \<open>NoItemError\<close>). The operator strings:
  alignments 0 and 1 have a gap in the third column, alignment 2 is gaps only.
\<close>

definition demo_genome_seq :: "nat \<Rightarrow> string" where
  "demo_genome_seq g =
     (if g = 0 then ''ACGTACGT'' else if g = 1 then ''TTAGGCAT'' else ''GGCCAATT'')"

definition demo_loc_str :: "string coordinate \<Rightarrow> string" where
  "demo_loc_str loc = coord_name loc @ (if strand loc = - 1 then '':-1'' else '':1'')"

definition demo_region_Seq :: "string region \<Rightarrow> error + dna" where
  "demo_region_Seq r =
     (let loc = location r;
          s = take (nat (len loc)) (drop (nat (start loc)) (demo_genome_seq (genome loc)))
      in if genome loc = 4 then Inl NoItemError
         else Inr \<lparr>seq_name = demo_loc_str loc,
                   seq_str = (if strand loc = - 1 then rc s else s)\<rparr>)"

definition demo_compara :: "(string, bool list) compara" where
  "demo_compara =
     \<lparr>make_location = (\<lambda>g n s e st.
        Inr \<lparr>genome = g, coord_type = ''chromosome'', coord_name = n, start = s - 1, end' = e,
             strand = st\<rparr>),
      get_region = (\<lambda>g loc. if g = 3 then Inl NoItemError else Inr \<lparr>location = loc\<rparr>),
      region_Seq = demo_region_Seq,
      get_annotated_seq = (\<lambda>r feature_types where_feature. demo_region_Seq r),
      cigar_line = (\<lambda>i. if i = 2 then Inr ''DDDD'' else Inr ''MMDM''),
      slice_cigar = demo_slice_cigar,
      map_true = (\<lambda>m. m \<noteq> []),
      gapped = demo_gapped,
      loc_str = demo_loc_str\<rparr>"

definition demo_ids :: "string \<Rightarrow> nat \<Rightarrow> identifiers" where
  "demo_ids n i =
     \<lparr>id_name = n, id_dnafrag_start = 1, id_dnafrag_end = 3, id_dnafrag_strand = 1,
      id_genomic_align_id = i\<rparr>"

definition demo_ref_location :: "int \<Rightarrow> string coordinate" where
  "demo_ref_location st =
     \<lparr>genome = 0, coord_type = ''chromosome'', coord_name = ''h1'', start = 0, end' = 3,
      strand = st\<rparr>"

text \<open>
  Blocks of two members (human and mouse), of three (with a rat whose columns are gaps
  only), and of three with a member of genome 3 or of genome 4.
\<close>

definition demo_members2 :: "(nat \<times> identifiers) list" where
  "demo_members2 = [(0, demo_ids ''h1'' 0), (1, demo_ids ''m5'' 1)]"

definition demo_members3 :: "(nat \<times> identifiers) list" where
  "demo_members3 = [(0, demo_ids ''h1'' 0), (2, demo_ids ''r7'' 2), (1, demo_ids ''m5'' 1)]"

definition demo_members_lost :: "(nat \<times> identifiers) list" where
  "demo_members_lost = [(0, demo_ids ''h1'' 0), (3, demo_ids ''x9'' 1), (1, demo_ids ''m5'' 1)]"

definition demo_members_unmapped :: "(nat \<times> identifiers) list" where
  "demo_members_unmapped = [(0, demo_ids ''h1'' 0), (4, demo_ids ''y2'' 1), (1, demo_ids ''m5'' 1)]"

text \<open>Building a block and asking for its alignment, in one go.\<close>

definition block_alignment ::
  "('k, 'm) compara \<Rightarrow> (nat \<times> identifiers) list \<Rightarrow> 'k coordinate \<Rightarrow> string list \<Rightarrow> string option
    \<Rightarrow> bool \<Rightarrow> error + alignment" where
  "block_alignment env members' ref_location' feature_types where_feature omit_redundant =
     (case SyntenicRegions_init env members' ref_location' of
        Inl e \<Rightarrow> Inl e
      | Inr p \<Rightarrow> fst (get_alignment env p feature_types where_feature omit_redundant))"

text \<open>The block \<^verbatim>\<open>SyntenicRegions(compara, members, ref_location)\<close> builds here.\<close>

definition demo_block ::
  "(nat \<times> identifiers) list \<Rightarrow> int \<Rightarrow> (string, bool list) syntenic_regions" where
  "demo_block members' st =
     (case SyntenicRegions_init demo_compara members' (demo_ref_location st) of
        Inr p \<Rightarrow> p
      | Inl e \<Rightarrow> \<lparr>ref_location = demo_ref_location st, members = [], cached_CigarStart = None,
                   cached_CigarEnd = None, do_rc = None\<rparr>)"

text \<open>
  A block whose reference member lies on the reverse strand, asked for the first two
  bases of the chromosome.
\<close>

definition demo_block_rev :: "(string, bool list) syntenic_regions" where
  "demo_block_rev =
     (case SyntenicRegions_init demo_compara
             [(0, (demo_ids ''h1'' 0)\<lparr>id_dnafrag_strand := - 1\<rparr>), (1, demo_ids ''m5'' 1)]
             ((demo_ref_location (- 1))\<lparr>end' := 2\<rparr>) of
        Inr p \<Rightarrow> p
      | Inl e \<Rightarrow> \<lparr>ref_location = demo_ref_location (- 1), members = [], cached_CigarStart = None,
                   cached_CigarEnd = None, do_rc = None\<rparr>)"

section \<open>Properties of sequence.py\<close>

subsection \<open>DNA sequences\<close>



lemma make_seq_not_assertion: "make_seq s \<noteq> Inl AssertionError"
  by (simp add: make_seq_def Let_def)





subsection \<open>The loop of the assembler\<close>






lemma assemble_loop_error:
  "length ps + i \<le> length frags \<Longrightarrow>
   assemble_loop frags i ps pe fe acc =
     (if negative_gap pe ps then Inl AssertionError
      else Inr (if ps = [] then pe else snd (last ps),
                if ps = [] then fe else Some (snd (last ps)),
                acc @ concat (map (\<lambda>(k, (s, e), p). [replicate (nat (s - p)) CHR ''N'', frags ! k])
                                 (zip [i..<i + length ps] (zip ps (pe # map snd ps))))))"
proof (induction ps arbitrary: i pe fe acc)
  case Nil
  then show ?case by simp
next
  case (Cons p ps)
  obtain s e where p: "p = (s, e)" by (cases p)
  from Cons.prems have i: "i < length frags" "length ps + Suc i \<le> length frags" by auto
  have u: "[i..<i + length (p # ps)] = i # [Suc i..<Suc i + length ps]"
    by (simp add: upt_rec)
  show ?case using Cons.IH[OF i(2)] i(1) p u by (auto simp: Let_def)
qed

subsection \<open>The assembler\<close>






text \<open>
  C2, as stated, fails: the assertion error is also raised when no fragment starts
  before the end of its predecessor, here because the requested end lies before the end
  of the last fragment, and because there are more fragments than positions.
\<close>

theorem assemble_seq_end_counterexample:
  "assemble_seq [''ACGT''] 0 2 [(0, 4)] = Inl AssertionError \<and> \<not> negative_gap 0 [(0, 4)]
   \<and> assemble_seq [''ACGT'', ''AC''] 0 4 [(0, 4)] = Inl AssertionError"
  by (simp add: assemble_seq_def)

text \<open>
  C2, amended. With at least one position, the assembler raises \<open>AssertionError\<close>
  exactly when the numbers of fragments and positions differ, or some fragment starts
  before the end of its predecessor (the requested start for the first), or the
  requested end lies before the end of the last fragment; when none of the three holds
  no such error is raised.
\<close>

theorem assemble_seq_assertion_iff:
  assumes "frag_positions \<noteq> []"
  shows "(assemble_seq frags start' end'' frag_positions = Inl AssertionError) =
           (length frag_positions \<noteq> length frags \<or> negative_gap start' frag_positions
             \<or> end'' < snd (last frag_positions))
       \<and> (length frag_positions = length frags \<and> \<not> negative_gap start' frag_positions
             \<and> snd (last frag_positions) \<le> end''
           \<longrightarrow> assemble_seq frags start' end'' frag_positions \<noteq> Inl AssertionError)"
proof (cases "length frag_positions = length frags")
  case False
  then show ?thesis by (simp add: assemble_seq_def)
next
  case True
  then have "length frag_positions + 0 \<le> length frags" by simp
  from assemble_loop_error[OF this, of start' None "[]"] assms True
  show ?thesis by (auto simp: assemble_seq_def Let_def make_seq_not_assertion)
qed

theorem assemble_seq_assertion_iff_witness:
  "[(1, 3)] \<noteq> ([] :: (int \<times> int) list)
   \<and> length [(1::int, 3::int)] = length [''AC''] \<and> \<not> negative_gap 0 [(1, 3)]
   \<and> snd (last [(1::int, 3::int)]) \<le> 5
   \<and> assemble_seq [''AC''] 0 5 [(1, 3)] \<noteq> Inl AssertionError
   \<and> negative_gap 2 [(1, 3)]
   \<and> assemble_seq [''AC''] 2 5 [(1, 3)] = Inl AssertionError"
  using assemble_seq_assertion_iff [of "[(1, 3)]" "[''AC'']" 0 5]
        assemble_seq_assertion_iff [of "[(1, 3)]" "[''AC'']" 2 5]
  by simp

subsection \<open>The walk over the ranks\<close>

lemma rank_loop_quiet:
  "\<forall>r \<in> set ranks. quiet db coord r \<Longrightarrow>
   rank_loop db coord ranks a = a \<or> rank_loop db coord ranks a = Some []"
proof (induction ranks arbitrary: a)
  case Nil
  then show ?case by simp
next
  case (Cons r ranks)
  then have q: "quiet db coord r" and rest: "\<forall>r \<in> set ranks. quiet db coord r" by auto
  show ?case
  proof (cases "coord_type_at (coord_system db) r")
    case None
    then show ?thesis using Cons.IH[OF rest, of a] by simp
  next
    case (Some ct)
    with q have "get_coord_conversion db coord ct = []" by (simp add: quiet_def)
    then show ?thesis using Some Cons.IH[OF rest, of "Some []"] by auto
  qed
qed

lemma rank_loop_first:
  "\<forall>r' \<in> set pre. quiet db coord r' \<Longrightarrow> coord_type_at (coord_system db) r = Some ct \<Longrightarrow>
   get_coord_conversion db coord ct \<noteq> [] \<Longrightarrow>
   rank_loop db coord (pre @ r # post) a = Some (get_coord_conversion db coord ct)"
proof (induction pre arbitrary: a)
  case Nil
  then show ?case by simp
next
  case (Cons x pre)
  then have q: "quiet db coord x" by simp
  show ?case
  proof (cases "coord_type_at (coord_system db) x")
    case None
    then show ?thesis using Cons by simp
  next
    case (Some cx)
    with q have "get_coord_conversion db coord cx = []" by (simp add: quiet_def)
    then show ?thesis using Some Cons by simp
  qed
qed

text \<open>
  C4. When the coordinate's type and the sequence level are registered, the indirect
  mapper looks only at ranks strictly between the two ranks, in increasing order. Either
  some rank in between has a coordinate system whose conversion is not empty: then the
  result is the conversion of the first such rank, every rank before it being quiet
  (no system registered there, or an empty conversion). Or every rank in between is
  quiet, and the result is \<open>None\<close> or the empty list.
\<close>

theorem get_lower_coord_conversion_first_rank:
  assumes q: "map_of (coord_system db) (coord_type coord) = Some query"
    and s: "map_of (coord_system db) (seq_level db) = Some seq"
  shows "(\<exists>r ct. rank query < r \<and> r < rank seq
            \<and> coord_type_at (coord_system db) r = Some ct
            \<and> get_coord_conversion db coord ct \<noteq> []
            \<and> (\<forall>r'. rank query < r' \<and> r' < r \<longrightarrow> quiet db coord r')
            \<and> get_lower_coord_conversion db coord = Inr (Some (get_coord_conversion db coord ct)))
       \<or> ((\<forall>r. rank query < r \<and> r < rank seq \<longrightarrow> quiet db coord r)
            \<and> (get_lower_coord_conversion db coord = Inr None
                \<or> get_lower_coord_conversion db coord = Inr (Some [])))"
proof (cases "\<forall>r. rank query < r \<and> r < rank seq \<longrightarrow> quiet db coord r")
  case True
  then have "\<forall>r \<in> set [rank query + 1 .. rank seq - 1]. quiet db coord r" by auto
  from rank_loop_quiet[OF this, of None] True q s show ?thesis
    by (auto simp: get_lower_coord_conversion_def)
next
  case False
  define P where "P = (\<lambda>n. \<not> quiet db coord (rank query + 1 + int n) \<and> rank query + 1 + int n < rank seq)"
  from False obtain r0 where r0: "rank query < r0" "r0 < rank seq" "\<not> quiet db coord r0" by auto
  then have "P (nat (r0 - (rank query + 1)))" by (simp add: P_def)
  then have ex: "\<exists>n. P n" ..
  define n where "n = (LEAST n. P n)"
  define r where "r = rank query + 1 + int n"
  from LeastI_ex[OF ex] have Pn: "P n" by (simp add: n_def)
  have least: "\<And>m. m < n \<Longrightarrow> \<not> P m" using not_less_Least by (auto simp: n_def)
  from Pn have r: "rank query < r" "r < rank seq" "\<not> quiet db coord r" by (auto simp: P_def r_def)
  have before: "quiet db coord r'" if "rank query < r'" "r' < r" for r'
  proof -
    from that have "nat (r' - (rank query + 1)) < n" by (simp add: r_def)
    from least[OF this] that r(2) show ?thesis by (simp add: P_def)
  qed
  from r(3) obtain ct where ct: "coord_type_at (coord_system db) r = Some ct"
    "get_coord_conversion db coord ct \<noteq> []"
    by (auto simp: quiet_def split: option.splits)
  have split: "[rank query + 1 .. rank seq - 1] = [rank query + 1 .. r - 1] @ r # [r + 1 .. rank seq - 1]"
    using r by (intro upto_split3) auto
  have pre: "\<forall>r' \<in> set [rank query + 1 .. r - 1]. quiet db coord r'" using before by auto
  have "rank_loop db coord [rank query + 1 .. rank seq - 1] None = Some (get_coord_conversion db coord ct)"
    unfolding split by (rule rank_loop_first[OF pre ct])
  then have "get_lower_coord_conversion db coord = Inr (Some (get_coord_conversion db coord ct))"
    using q s by (simp add: get_lower_coord_conversion_def)
  with r ct before show ?thesis by blast
qed

subsection \<open>The store and the result of get_sequence\<close>

lemma direct_store:
  "fst (get_sequence_from_direct_assembly env h a) = h[a := (h ! a)\<lparr>strand := 1\<rparr>]"
  by (simp add: get_sequence_from_direct_assembly_def Let_def split: sum.splits prod.splits)

lemma direct_result_local:
  "a < length h \<Longrightarrow>
   snd (get_sequence_from_direct_assembly env h a) =
   snd (get_sequence_from_direct_assembly env [h ! a] 0)"
  by (simp add: get_sequence_from_direct_assembly_def Let_def split: sum.splits prod.splits)

lemma lower_frags_prefix:
  "take (length h) (fst (lower_frags env h ps seqs pos)) = h"
proof (induction ps arbitrary: h seqs pos)
  case Nil
  then show ?case by simp
next
  case (Cons p ps)
  obtain q t where p: "p = (q, t)" by (cases p)
  define h2 where "h2 = fst (get_sequence_from_direct_assembly env (h @ [t]) (length h))"
  have h2: "h2 = h @ [t\<lparr>strand := 1\<rparr>]" by (simp add: h2_def direct_store)
  have "take (length h) (fst (lower_frags env h2 ps s' p')) = h" for s' p'
  proof -
    have "take (length h) (take (length h2) (fst (lower_frags env h2 ps s' p'))) = take (length h) h2"
      by (simp only: Cons.IH)
    then show ?thesis by (simp add: h2 min_def)
  qed
  then show ?case using p h2
    by (auto simp: alloc_def Let_def h2_def split: prod.splits sum.splits)
qed

lemma lower_frags_result_local:
  "snd (lower_frags env h ps seqs pos) = snd (lower_frags env h' ps seqs pos)"
proof (induction ps arbitrary: h h' seqs pos)
  case Nil
  then show ?case by simp
next
  case (Cons p ps)
  obtain q t where p: "p = (q, t)" by (cases p)
  obtain h2 r where d: "get_sequence_from_direct_assembly env (h @ [t]) (length h) = (h2, r)"
    by (cases "get_sequence_from_direct_assembly env (h @ [t]) (length h)")
  obtain h2' r' where d': "get_sequence_from_direct_assembly env (h' @ [t]) (length h') = (h2', r')"
    by (cases "get_sequence_from_direct_assembly env (h' @ [t]) (length h')")
  from direct_result_local[of "length h" "h @ [t]" env]
       direct_result_local[of "length h'" "h' @ [t]" env] d d'
  have rr: "r' = r" by simp
  show ?case
  proof (cases r)
    case (Inl e)
    then show ?thesis using p d d' rr by (simp add: alloc_def)
  next
    case (Inr s)
    let ?s = "seqs @ [if strand t = - 1 then rc s else s]"
    let ?p = "pos @ [(start q, end' q)]"
    have "snd (lower_frags env h2 ps ?s ?p) = snd (lower_frags env h2' ps ?s ?p)"
      by (rule Cons.IH)
    then show ?thesis using p d d' rr Inr by (simp add: alloc_def Let_def)
  qed
qed

lemma lower_frags_nth:
  "a < length h \<Longrightarrow> fst (lower_frags env h ps seqs pos) ! a = h ! a"
  by (metis lower_frags_prefix nth_take)

lemma lower_store_prefix:
  "take (length h) (fst (get_sequence_from_lower_assembly env h a)) = h"
proof (cases "get_lower_coord_conversion (CoreDb env (genome (h ! a))) (h ! a)")
  case (Inl e)
  then show ?thesis by (simp add: get_sequence_from_lower_assembly_def)
next
  case (Inr r)
  show ?thesis
  proof (cases r)
    case None
    with Inr show ?thesis by (simp add: get_sequence_from_lower_assembly_def)
  next
    case (Some as)
    obtain h' x where l: "lower_frags env h as [] [] = (h', x)" by (cases "lower_frags env h as [] []")
    from lower_frags_prefix[of h env as "[]" "[]"] l have "take (length h) h' = h" by simp
    with Inr Some l show ?thesis
      by (simp add: get_sequence_from_lower_assembly_def split: sum.splits prod.splits)
  qed
qed

lemma lower_result_local:
  assumes "a < length h"
  shows "snd (get_sequence_from_lower_assembly env h a) =
         snd (get_sequence_from_lower_assembly env [h ! a] 0)"
proof (cases "get_lower_coord_conversion (CoreDb env (genome (h ! a))) (h ! a)")
  case (Inl e)
  then show ?thesis by (simp add: get_sequence_from_lower_assembly_def)
next
  case (Inr r)
  show ?thesis
  proof (cases r)
    case None
    with Inr show ?thesis by (simp add: get_sequence_from_lower_assembly_def)
  next
    case (Some as)
    obtain h' x where l: "lower_frags env h as [] [] = (h', x)" by (cases "lower_frags env h as [] []")
    obtain h'' x' where l': "lower_frags env [h ! a] as [] [] = (h'', x')"
      by (cases "lower_frags env [h ! a] as [] []")
    from lower_frags_nth[OF assms, of env as "[]" "[]"] l have n: "h' ! a = h ! a" by simp
    from lower_frags_nth[of 0 "[h ! a]" env as "[]" "[]"] l' have n0: "h'' ! 0 = h ! a" by simp
    from lower_frags_result_local[of env h as "[]" "[]" "[h ! a]"] l l' have x: "x' = x" by simp
    from Inr Some l l' n n0 x show ?thesis
      by (simp add: get_sequence_from_lower_assembly_def split: sum.splits prod.splits)
  qed
qed

lemma assemble_forward_local:
  assumes "a < length h"
  shows "(case get_sequence_from_direct_assembly env h a of
            (h2, Inl NoItemError) \<Rightarrow> snd (get_sequence_from_lower_assembly env h2 a)
          | (h2, r) \<Rightarrow> r) = assemble_forward env (h ! a)"
proof -
  obtain h2 r where d: "get_sequence_from_direct_assembly env h a = (h2, r)"
    by (cases "get_sequence_from_direct_assembly env h a")
  obtain k2 r' where d': "get_sequence_from_direct_assembly env [h ! a] 0 = (k2, r')"
    by (cases "get_sequence_from_direct_assembly env [h ! a] 0")
  from direct_result_local[OF assms, of env] d d' have rr: "r' = r" by simp
  from direct_store[of env h a] d have h2: "h2 = h[a := (h ! a)\<lparr>strand := 1\<rparr>]" by simp
  from direct_store[of env "[h ! a]" 0] d' have k2: "k2 = [(h ! a)\<lparr>strand := 1\<rparr>]" by simp
  have "snd (get_sequence_from_lower_assembly env h2 a) =
        snd (get_sequence_from_lower_assembly env k2 0)"
    using lower_result_local[of a h2 env] lower_result_local[of 0 k2 env] assms h2 k2 by simp
  then show ?thesis using d d' rr
    by (simp add: assemble_forward_def split: sum.splits error.splits)
qed

lemma get_sequence_result:
  assumes "case coord of None \<Rightarrow> True | Some a \<Rightarrow> a < length h"
  shows "snd (get_sequence env h coord genome' coord_name' start' end'' strand') =
         (case requested env h coord genome' coord_name' start' end'' of
            Inl e \<Rightarrow> Inl e
          | Inr c \<Rightarrow>
              (case assemble_forward env c of
                 Inl e \<Rightarrow> Inl e
               | Inr sequence \<Rightarrow> Inr (if strand c = - 1 then rc sequence else sequence)))"
proof -
  have main: "snd (case (let strand'' = strand ((h @ [c]) ! length h);
                 (h2, r) = get_sequence_from_direct_assembly env (h @ [c]) (length h);
                 (h3, r') = (case r of
                               Inl NoItemError \<Rightarrow> get_sequence_from_lower_assembly env h2 (length h)
                             | _ \<Rightarrow> (h2, r))
             in case r' of
                  Inl e \<Rightarrow> (h3, Inl e)
                | Inr sequence \<Rightarrow> (h3, Inr (if strand'' = - 1 then rc sequence else sequence))) of (x, y) \<Rightarrow> (x, y)) =
         (case assemble_forward env c of
                 Inl e \<Rightarrow> Inl e
               | Inr sequence \<Rightarrow> Inr (if strand c = - 1 then rc sequence else sequence))" for c
  proof -
    obtain h2 r where d: "get_sequence_from_direct_assembly env (h @ [c]) (length h) = (h2, r)"
      by (cases "get_sequence_from_direct_assembly env (h @ [c]) (length h)")
    obtain h3 r3 where l: "get_sequence_from_lower_assembly env h2 (length h) = (h3, r3)"
      by (cases "get_sequence_from_lower_assembly env h2 (length h)")
    note af = assemble_forward_local[of "length h" "h @ [c]" env, unfolded d, simplified]
    show ?thesis
    proof (cases r)
      case (Inr sq)
      with af have "assemble_forward env c = Inr sq" by simp
      then show ?thesis by (simp add: d Inr)
    next
      case (Inl e)
      show ?thesis
      proof (cases "e = NoItemError")
        case True
        with Inl af l have "assemble_forward env c = r3" by simp
        then show ?thesis by (cases r3) (simp_all add: d l Inl True)
      next
        case False
        with Inl af have "assemble_forward env c = Inl e" by (cases e) simp_all
        then show ?thesis using False by (cases e) (simp_all add: d Inl)
      qed
    qed
  qed
  show ?thesis
  proof (cases coord)
    case None
    show ?thesis
    proof (cases "make_coord env genome' coord_name' start' end'' 1")
      case (Inl e)
      with None show ?thesis by (simp add: get_sequence_def requested_def)
    next
      case (Inr c)
      with None main[of c] show ?thesis
        by (simp add: get_sequence_def requested_def alloc_def)
    qed
  next
    case (Some a)
    with main[of "h ! a"] show ?thesis
      by (simp add: get_sequence_def requested_def alloc_def copy_def)
  qed
qed

lemma get_sequence_store:
  "take (length h) (fst (get_sequence env h coord genome' coord_name' start' end'' strand')) = h"
proof -
  have main: "take (length h) (fst (let strand'' = strand ((h @ [c]) ! length h);
                 (h2, r) = get_sequence_from_direct_assembly env (h @ [c]) (length h);
                 (h3, r') = (case r of
                               Inl NoItemError \<Rightarrow> get_sequence_from_lower_assembly env h2 (length h)
                             | _ \<Rightarrow> (h2, r))
             in case r' of
                  Inl e \<Rightarrow> (h3, Inl e)
                | Inr sequence \<Rightarrow> (h3, Inr (if strand'' = - 1 then rc sequence else sequence)))) = h" for c
  proof -
    obtain h2 r where d: "get_sequence_from_direct_assembly env (h @ [c]) (length h) = (h2, r)"
      by (cases "get_sequence_from_direct_assembly env (h @ [c]) (length h)")
    obtain h3 r3 where l: "get_sequence_from_lower_assembly env h2 (length h) = (h3, r3)"
      by (cases "get_sequence_from_lower_assembly env h2 (length h)")
    from direct_store[of env "h @ [c]" "length h"] d have h2: "h2 = h @ [c\<lparr>strand := 1\<rparr>]" by simp
    from lower_store_prefix[of h2 env "length h"] l have "take (length h2) h3 = h2" by simp
    then have "take (length h) (take (length h2) h3) = take (length h) h2" by simp
    then have h3: "take (length h) h3 = h" by (simp add: h2 min_def)
    show ?thesis
    proof (cases r)
      case (Inr sq)
      with d l h2 show ?thesis by simp
    next
      case (Inl e)
      show ?thesis
      proof (cases "e = NoItemError")
        case True
        with Inl d l h3 show ?thesis by (cases r3) simp_all
      next
        case False
        with Inl d l h2 show ?thesis by (cases e) simp_all
      qed
    qed
  qed
  show ?thesis
  proof (cases coord)
    case None
    show ?thesis
    proof (cases "make_coord env genome' coord_name' start' end'' 1")
      case (Inl e)
      with None show ?thesis by (simp add: get_sequence_def)
    next
      case (Inr c)
      with None main[of c] show ?thesis
        by (simp add: get_sequence_def alloc_def)
    qed
  next
    case (Some a)
    with main[of "h ! a"] show ?thesis
      by (simp add: get_sequence_def alloc_def copy_def)
  qed
qed

lemma assemble_forward_strand:
  "assemble_forward env c = assemble_forward env (c\<lparr>strand := 1\<rparr>)"
  by (simp add: assemble_forward_def get_sequence_from_direct_assembly_def Let_def)

lemma lower_assembly_quiet:
  assumes q: "map_of (coord_system (CoreDb env (genome c))) (coord_type c) = Some query"
    and s: "map_of (coord_system (CoreDb env (genome c))) (seq_level (CoreDb env (genome c))) = Some seq"
    and quiet: "\<forall>r. rank query < r \<and> r < rank seq \<longrightarrow> quiet (CoreDb env (genome c)) c r"
  shows "get_sequence_from_lower_assembly env [c] 0 = ([c], Inl NoItemError)"
proof -
  let ?db = "CoreDb env (genome c)"
  from quiet have "\<forall>r \<in> set [rank query + 1 .. rank seq - 1]. quiet ?db c r" by auto
  from rank_loop_quiet[OF this, of None]
  have "get_lower_coord_conversion ?db c = Inr None \<or> get_lower_coord_conversion ?db c = Inr (Some [])"
    using q s by (auto simp: get_lower_coord_conversion_def)
  then show ?thesis by (auto simp: get_sequence_from_lower_assembly_def)
qed

lemma assemble_forward_fallback:
  assumes "get_coord_conversion (CoreDb env (genome c)) (c\<lparr>strand := 1\<rparr>)
             (seq_level (CoreDb env (genome c))) = []"
  shows "assemble_forward env c = snd (get_sequence_from_lower_assembly env [c\<lparr>strand := 1\<rparr>] 0)"
  using assms by (simp add: assemble_forward_def get_sequence_from_direct_assembly_def Let_def)

lemma lower_frags_pieces:
  "snd (lower_frags env h ps seqs pos) =
   (case pieces_by_rank env ps of
      Inl e \<Rightarrow> Inl e
    | Inr ss \<Rightarrow> Inr (seqs @ ss, pos @ query_positions ps))"
proof (induction ps arbitrary: h seqs pos)
  case Nil
  then show ?case by (simp add: query_positions_def)
next
  case (Cons p ps)
  obtain q t where p: "p = (q, t)" by (cases p)
  obtain h2 r where d: "get_sequence_from_direct_assembly env (h @ [t]) (length h) = (h2, r)"
    by (cases "get_sequence_from_direct_assembly env (h @ [t]) (length h)")
  from direct_result_local[of "length h" "h @ [t]" env] d
  have r: "snd (get_sequence_from_direct_assembly env [t] 0) = r" by simp
  show ?case
  proof (cases r)
    case (Inl e)
    then show ?thesis using p d r by (simp add: alloc_def)
  next
    case (Inr s)
    let ?x = "if strand t = - 1 then rc s else s"
    have ih: "snd (lower_frags env h2 ps (seqs @ [?x]) (pos @ [(start q, end' q)])) =
       (case pieces_by_rank env ps of
          Inl e \<Rightarrow> Inl e
        | Inr ss \<Rightarrow> Inr ((seqs @ [?x]) @ ss, (pos @ [(start q, end' q)]) @ query_positions ps))"
      by (rule Cons.IH)
    show ?thesis
    proof (cases "pieces_by_rank env ps")
      case (Inl e)
      with ih p d r Inr show ?thesis by (simp add: alloc_def Let_def)
    next
      case ss: (Inr ss)
      with ih p d r Inr show ?thesis by (simp add: alloc_def Let_def query_positions_def)
    qed
  qed
qed

lemma lower_conversion_first:
  assumes q: "map_of (coord_system db) (coord_type coord) = Some query"
    and s: "map_of (coord_system db) (seq_level db) = Some seq"
    and r: "rank query < r" "r < rank seq"
    and ct: "coord_type_at (coord_system db) r = Some ct" "get_coord_conversion db coord ct \<noteq> []"
    and before: "\<forall>r'. rank query < r' \<and> r' < r \<longrightarrow> quiet db coord r'"
  shows "get_lower_coord_conversion db coord = Inr (Some (get_coord_conversion db coord ct))"
proof -
  have split: "[rank query + 1 .. rank seq - 1] = [rank query + 1 .. r - 1] @ r # [r + 1 .. rank seq - 1]"
    using r by (intro upto_split3) auto
  have pre: "\<forall>r' \<in> set [rank query + 1 .. r - 1]. quiet db coord r'" using before by auto
  have "rank_loop db coord [rank query + 1 .. rank seq - 1] None = Some (get_coord_conversion db coord ct)"
    unfolding split by (rule rank_loop_first[OF pre ct])
  then show ?thesis using q s by (simp add: get_lower_coord_conversion_def)
qed

lemma lower_assembly_pieces:
  assumes conv: "get_lower_coord_conversion (CoreDb env (genome c)) c = Inr (Some assemblies)"
    and ne: "assemblies \<noteq> []"
  shows "snd (get_sequence_from_lower_assembly env [c] 0) =
         (case pieces_by_rank env assemblies of
            Inl e \<Rightarrow> Inl e
          | Inr seqs \<Rightarrow> assemble_seq seqs (start c) (end' c) (query_positions assemblies))"
proof -
  obtain h' x where l: "lower_frags env [c] assemblies [] [] = (h', x)"
    by (cases "lower_frags env [c] assemblies [] []")
  from lower_frags_nth[of 0 "[c]" env assemblies "[]" "[]"] l have n: "h' ! 0 = c" by simp
  note x = lower_frags_pieces[of env "[c]" assemblies "[]" "[]"]
  show ?thesis
  proof (cases "pieces_by_rank env assemblies")
    case (Inl e)
    with x l have "x = Inl e" by simp
    with Inl conv ne l show ?thesis by (simp add: get_sequence_from_lower_assembly_def)
  next
    case (Inr ss)
    with x l have "x = Inr (ss, query_positions assemblies)" by simp
    with Inr conv ne l n show ?thesis by (simp add: get_sequence_from_lower_assembly_def)
  qed
qed

text \<open>
  C5. Let \<open>c\<close> be the coordinate the call works on. If the direct conversion of \<open>c\<close>
  (strand forced to 1) to the sequence level is empty, \<^verbatim>\<open>get_sequence\<close> returns what
  the assembly by rank returns, reverse-complemented when the strand of \<open>c\<close> is -1. With
  the type of \<open>c\<close> and the sequence level registered, this is, when \<open>r\<close> is the first
  rank strictly between them with a coordinate system whose conversion is not empty,
  the sequence assembled over the interval of \<open>c\<close> from the fragments of that
  conversion, each the direct assembly of a target coordinate; and when every rank
  strictly between them is quiet, the call raises \<open>NoItemError\<close>.
\<close>

theorem get_sequence_no_mapping:
  assumes req: "requested env h coord genome' coord_name' start' end'' = Inr c"
    and addr: "case coord of None \<Rightarrow> True | Some a \<Rightarrow> a < length h"
    and direct: "get_coord_conversion (CoreDb env (genome c)) (c\<lparr>strand := 1\<rparr>)
                   (seq_level (CoreDb env (genome c))) = []"
  shows "snd (get_sequence env h coord genome' coord_name' start' end'' strand') =
           (case snd (get_sequence_from_lower_assembly env [c\<lparr>strand := 1\<rparr>] 0) of
              Inl e \<Rightarrow> Inl e
            | Inr sequence \<Rightarrow> Inr (if strand c = - 1 then rc sequence else sequence))
       \<and> (map_of (coord_system (CoreDb env (genome c))) (coord_type c) = Some query
            \<and> map_of (coord_system (CoreDb env (genome c))) (seq_level (CoreDb env (genome c))) = Some seq
            \<and> rank query < r \<and> r < rank seq
            \<and> coord_type_at (coord_system (CoreDb env (genome c))) r = Some ct
            \<and> get_coord_conversion (CoreDb env (genome c)) (c\<lparr>strand := 1\<rparr>) ct \<noteq> []
            \<and> (\<forall>r'. rank query < r' \<and> r' < r
                    \<longrightarrow> quiet (CoreDb env (genome c)) (c\<lparr>strand := 1\<rparr>) r')
          \<longrightarrow> snd (get_sequence env h coord genome' coord_name' start' end'' strand') =
                (case pieces_by_rank env
                        (get_coord_conversion (CoreDb env (genome c)) (c\<lparr>strand := 1\<rparr>) ct) of
                   Inl e \<Rightarrow> Inl e
                 | Inr seqs \<Rightarrow>
                     (case assemble_seq seqs (start c) (end' c)
                             (query_positions
                                (get_coord_conversion (CoreDb env (genome c)) (c\<lparr>strand := 1\<rparr>) ct)) of
                        Inl e \<Rightarrow> Inl e
                      | Inr sequence \<Rightarrow> Inr (if strand c = - 1 then rc sequence else sequence))))
       \<and> (map_of (coord_system (CoreDb env (genome c))) (coord_type c) = Some query
            \<and> map_of (coord_system (CoreDb env (genome c))) (seq_level (CoreDb env (genome c))) = Some seq
            \<and> (\<forall>r. rank query < r \<and> r < rank seq
                   \<longrightarrow> quiet (CoreDb env (genome c)) (c\<lparr>strand := 1\<rparr>) r)
          \<longrightarrow> snd (get_sequence env h coord genome' coord_name' start' end'' strand') =
                Inl NoItemError)"
proof -
  let ?c = "c\<lparr>strand := 1\<rparr>"
  let ?db = "CoreDb env (genome c)"
  have res: "snd (get_sequence env h coord genome' coord_name' start' end'' strand') =
           (case snd (get_sequence_from_lower_assembly env [?c] 0) of
              Inl e \<Rightarrow> Inl e
            | Inr sequence \<Rightarrow> Inr (if strand c = - 1 then rc sequence else sequence))"
    by (simp add: get_sequence_result[OF addr] req assemble_forward_fallback[OF direct])
  have walk: "snd (get_sequence env h coord genome' coord_name' start' end'' strand') =
                (case pieces_by_rank env (get_coord_conversion ?db ?c ct) of
                   Inl e \<Rightarrow> Inl e
                 | Inr seqs \<Rightarrow>
                     (case assemble_seq seqs (start c) (end' c)
                             (query_positions (get_coord_conversion ?db ?c ct)) of
                        Inl e \<Rightarrow> Inl e
                      | Inr sequence \<Rightarrow> Inr (if strand c = - 1 then rc sequence else sequence)))"
    if a: "map_of (coord_system ?db) (coord_type c) = Some query
            \<and> map_of (coord_system ?db) (seq_level ?db) = Some seq
            \<and> rank query < r \<and> r < rank seq
            \<and> coord_type_at (coord_system ?db) r = Some ct
            \<and> get_coord_conversion ?db ?c ct \<noteq> []
            \<and> (\<forall>r'. rank query < r' \<and> r' < r \<longrightarrow> quiet ?db ?c r')"
  proof -
    from a have conv: "get_lower_coord_conversion (CoreDb env (genome ?c)) ?c =
                       Inr (Some (get_coord_conversion ?db ?c ct))"
      using lower_conversion_first[of ?db ?c query seq r ct] by simp
    from a have ne: "get_coord_conversion ?db ?c ct \<noteq> []" by simp
    note l = lower_assembly_pieces[OF conv ne]
    show ?thesis
    proof (cases "pieces_by_rank env (get_coord_conversion ?db ?c ct)")
      case (Inl e)
      with l have "snd (get_sequence_from_lower_assembly env [?c] 0) = Inl e" by simp
      with Inl res show ?thesis by simp
    next
      case (Inr seqs)
      with l have "snd (get_sequence_from_lower_assembly env [?c] 0) =
          assemble_seq seqs (start c) (end' c) (query_positions (get_coord_conversion ?db ?c ct))"
        by simp
      with Inr res show ?thesis by simp
    qed
  qed
  have none: "snd (get_sequence env h coord genome' coord_name' start' end'' strand') =
                Inl NoItemError"
    if a: "map_of (coord_system ?db) (coord_type c) = Some query
            \<and> map_of (coord_system ?db) (seq_level ?db) = Some seq
            \<and> (\<forall>r. rank query < r \<and> r < rank seq \<longrightarrow> quiet ?db ?c r)"
  proof -
    from lower_assembly_quiet[of env ?c query seq] a
    have "get_sequence_from_lower_assembly env [?c] 0 = ([?c], Inl NoItemError)" by simp
    with res show ?thesis by simp
  qed
  from res walk none show ?thesis by blast
qed

text \<open>
  C10. A call of \<^verbatim>\<open>get_sequence\<close> with the caller's Coordinate at address \<open>a\<close>
  leaves that object, and every object that was in the store, as it was; and the
  orientation of the result is decided by the strand the caller's object has, while
  the assembly runs on the copy with the strand forced to 1.
\<close>

theorem get_sequence_leaves_coord:
  assumes "a < length h"
  shows "fst (get_sequence env h (Some a) genome' coord_name' start' end'' strand') ! a = h ! a
       \<and> take (length h) (fst (get_sequence env h (Some a) genome' coord_name' start' end'' strand')) = h
       \<and> snd (get_sequence env h (Some a) genome' coord_name' start' end'' strand') =
           (case assemble_forward env ((h ! a)\<lparr>strand := 1\<rparr>) of
              Inl e \<Rightarrow> Inl e
            | Inr sequence \<Rightarrow> Inr (if strand (h ! a) = - 1 then rc sequence else sequence))"
proof -
  let ?h = "fst (get_sequence env h (Some a) genome' coord_name' start' end'' strand')"
  have t: "take (length h) ?h = h" by (rule get_sequence_store)
  then have "take (length h) ?h ! a = h ! a" by simp
  with assms have n: "?h ! a = h ! a" by simp
  have r: "snd (get_sequence env h (Some a) genome' coord_name' start' end'' strand') =
           (case assemble_forward env ((h ! a)\<lparr>strand := 1\<rparr>) of
              Inl e \<Rightarrow> Inl e
            | Inr sequence \<Rightarrow> Inr (if strand (h ! a) = - 1 then rc sequence else sequence))"
    using get_sequence_result[where coord = "Some a" and h = h and env = env] assms
      assemble_forward_strand[of env "h ! a"]
    by (simp add: requested_def)
  from n t r show ?thesis by simp
qed

text \<open>
  The keyword argument \<^verbatim>\<open>strand\<close> is never read: when no Coordinate is passed, the
  coordinate is built with strand 1 whatever the caller asked for.
\<close>

lemma get_sequence_strand_unused:
  "get_sequence env h None genome' coord_name' start' end'' strand' =
   get_sequence env h None genome' coord_name' start' end'' 1"
  by (simp add: get_sequence_def)

text \<open>
  C3. In the small genome, the first three bases of chromosome 1 are AAC. Requested by
  keyword arguments on the reverse strand (\<^verbatim>\<open>strand=-1\<close>), the call returns AAC, not
  reverse-complemented; the same interval requested through a Coordinate of strand -1
  returns the reverse complement GTT.
\<close>

theorem get_sequence_keyword_strand_ignored:
  "snd (get_sequence demo_env [] None 0 ''1'' 0 3 (- 1)) = Inr ''AAC''
   \<and> snd (get_sequence demo_env [demo_coord ''1'' 0 3 (- 1)] (Some 0) 0 [] 0 0 1) = Inr ''GTT''"
  by code_simp

theorem get_sequence_leaves_coord_witness:
  "(0::nat) < length [demo_coord ''1'' 0 3 (- 1)]
   \<and> fst (get_sequence demo_env [demo_coord ''1'' 0 3 (- 1)] (Some 0) 0 [] 0 0 1) ! 0 =
       demo_coord ''1'' 0 3 (- 1)
   \<and> snd (get_sequence demo_env [demo_coord ''1'' 0 3 (- 1)] (Some 0) 0 [] 0 0 1) = Inr ''GTT''"
proof -
  have s: "snd (get_sequence demo_env [demo_coord ''1'' 0 3 (- 1)] (Some 0) 0 [] 0 0 1) = Inr ''GTT''"
    by code_simp
  show ?thesis
    using get_sequence_leaves_coord [of 0 "[demo_coord ''1'' 0 3 (- 1)]" demo_env 0 "[]" 0 0 1] s
    by simp
qed

theorem get_sequence_no_mapping_witness:
  "requested demo_env [demo_coord ''3'' 0 3 (- 1)] (Some 0) 0 [] 0 0 = Inr (demo_coord ''3'' 0 3 (- 1))
   \<and> get_coord_conversion (CoreDb demo_env 0) ((demo_coord ''3'' 0 3 (- 1))\<lparr>strand := 1\<rparr>)
        (seq_level (CoreDb demo_env 0)) = []
   \<and> map_of (coord_system (CoreDb demo_env 0)) ''chromosome'' = Some \<lparr>name = ''chromosome'', rank = 1\<rparr>
   \<and> map_of (coord_system (CoreDb demo_env 0)) (seq_level (CoreDb demo_env 0)) =
        Some \<lparr>name = ''contig'', rank = 4\<rparr>
   \<and> quiet (CoreDb demo_env 0) ((demo_coord ''3'' 0 3 (- 1))\<lparr>strand := 1\<rparr>) 2
   \<and> quiet (CoreDb demo_env 0) ((demo_coord ''3'' 0 3 (- 1))\<lparr>strand := 1\<rparr>) 3
   \<and> snd (get_sequence demo_env [demo_coord ''3'' 0 3 (- 1)] (Some 0) 0 [] 0 0 1) = Inl NoItemError
   \<and> requested demo_env [demo_coord ''2'' 1 6 (- 1)] (Some 0) 0 [] 0 0 = Inr (demo_coord ''2'' 1 6 (- 1))
   \<and> get_coord_conversion (CoreDb demo_env 0) ((demo_coord ''2'' 1 6 (- 1))\<lparr>strand := 1\<rparr>)
        (seq_level (CoreDb demo_env 0)) = []
   \<and> quiet (CoreDb demo_env 0) ((demo_coord ''2'' 1 6 (- 1))\<lparr>strand := 1\<rparr>) 2
   \<and> coord_type_at (coord_system (CoreDb demo_env 0)) 3 = Some ''supercontig''
   \<and> get_coord_conversion (CoreDb demo_env 0) ((demo_coord ''2'' 1 6 (- 1))\<lparr>strand := 1\<rparr>)
        ''supercontig'' =
       [(demo_coord ''2'' 1 6 1,
         (demo_coord ''2'' 1 6 1)\<lparr>coord_type := ''supercontig'', coord_name := ''s1'',
                                   strand := - 1\<rparr>)]
   \<and> pieces_by_rank demo_env
        (get_coord_conversion (CoreDb demo_env 0) ((demo_coord ''2'' 1 6 (- 1))\<lparr>strand := 1\<rparr>)
           ''supercontig'') = Inr [''CCGGT'']
   \<and> snd (get_sequence demo_env [demo_coord ''2'' 1 6 (- 1)] (Some 0) 0 [] 0 0 1) = Inr ''ACCGG''"
proof -
  let ?c = "demo_coord ''3'' 0 3 (- 1)"
  let ?d = "demo_coord ''2'' 1 6 (- 1)"
  let ?query = "\<lparr>name = ''chromosome'', rank = 1\<rparr>"
  let ?seq = "\<lparr>name = ''contig'', rank = 4\<rparr>"
  have a: "requested demo_env [?c] (Some 0) 0 [] 0 0 = Inr ?c"
    by (simp add: requested_def)
  have b: "case Some (0::nat) of None \<Rightarrow> True | Some a \<Rightarrow> a < length [?c]"
    by simp
  have g: "genome ?c = 0" by (simp add: demo_coord_def)
  have c: "get_coord_conversion (CoreDb demo_env (genome ?c)) (?c\<lparr>strand := 1\<rparr>)
             (seq_level (CoreDb demo_env (genome ?c))) = []"
    by (simp add: demo_env_def demo_db_def demo_conversion_def demo_coord_def)
  have q: "map_of (coord_system (CoreDb demo_env (genome ?c))) (coord_type ?c) = Some ?query"
    by (simp add: demo_env_def demo_db_def demo_coord_def)
  have s: "map_of (coord_system (CoreDb demo_env (genome ?c))) (seq_level (CoreDb demo_env (genome ?c))) =
             Some ?seq"
    by (simp add: demo_env_def demo_db_def demo_coord_def)
  have quiet2: "quiet (CoreDb demo_env 0) (?c\<lparr>strand := 1\<rparr>) 2"
    by (simp add: quiet_def coord_type_at_def demo_env_def demo_db_def)
  have quiet3: "quiet (CoreDb demo_env 0) (?c\<lparr>strand := 1\<rparr>) 3"
    by (simp add: quiet_def coord_type_at_def demo_env_def demo_db_def demo_conversion_def
        demo_coord_def)
  have quiet: "\<forall>r. 1 < r \<and> r < 4 \<longrightarrow> quiet (CoreDb demo_env 0) (?c\<lparr>strand := 1\<rparr>) r"
  proof (intro allI impI)
    fix r :: int
    assume "1 < r \<and> r < 4"
    then have "r = 2 \<or> r = 3" by arith
    then show "quiet (CoreDb demo_env 0) (?c\<lparr>strand := 1\<rparr>) r"
      using quiet2 quiet3 by auto
  qed
  note t = get_sequence_no_mapping [OF a b c,
      where query = ?query and seq = ?seq and strand' = 1]
  have e: "snd (get_sequence demo_env [?c] (Some 0) 0 [] 0 0 1) = Inl NoItemError"
  proof (rule t [THEN conjunct2, THEN conjunct2, THEN mp])
    show "map_of (coord_system (CoreDb demo_env (genome ?c))) (coord_type ?c) = Some ?query
        \<and> map_of (coord_system (CoreDb demo_env (genome ?c))) (seq_level (CoreDb demo_env (genome ?c))) =
            Some ?seq
        \<and> (\<forall>r. rank ?query < r \<and> r < rank ?seq
               \<longrightarrow> quiet (CoreDb demo_env (genome ?c)) (?c\<lparr>strand := 1\<rparr>) r)"
      using q s quiet g by simp
  qed
  have a2: "requested demo_env [?d] (Some 0) 0 [] 0 0 = Inr ?d"
    by (simp add: requested_def)
  have b2: "case Some (0::nat) of None \<Rightarrow> True | Some a \<Rightarrow> a < length [?d]"
    by simp
  have g2: "genome ?d = 0" by (simp add: demo_coord_def)
  have c2: "get_coord_conversion (CoreDb demo_env (genome ?d)) (?d\<lparr>strand := 1\<rparr>)
             (seq_level (CoreDb demo_env (genome ?d))) = []"
    by (simp add: demo_env_def demo_db_def demo_conversion_def demo_coord_def)
  have q2: "map_of (coord_system (CoreDb demo_env (genome ?d))) (coord_type ?d) = Some ?query"
    by (simp add: demo_env_def demo_db_def demo_coord_def)
  have s2: "map_of (coord_system (CoreDb demo_env (genome ?d))) (seq_level (CoreDb demo_env (genome ?d))) =
             Some ?seq"
    by (simp add: demo_env_def demo_db_def demo_coord_def)
  have d2: "quiet (CoreDb demo_env 0) (?d\<lparr>strand := 1\<rparr>) 2"
    by (simp add: quiet_def coord_type_at_def demo_env_def demo_db_def)
  have ct3: "coord_type_at (coord_system (CoreDb demo_env 0)) 3 = Some ''supercontig''"
    by (simp add: coord_type_at_def demo_env_def demo_db_def)
  have conv: "get_coord_conversion (CoreDb demo_env 0) (?d\<lparr>strand := 1\<rparr>) ''supercontig'' =
       [(demo_coord ''2'' 1 6 1,
         (demo_coord ''2'' 1 6 1)\<lparr>coord_type := ''supercontig'', coord_name := ''s1'',
                                   strand := - 1\<rparr>)]"
    by (simp add: demo_env_def demo_db_def demo_conversion_def demo_coord_def)
  have before: "\<forall>r'. 1 < r' \<and> r' < 3 \<longrightarrow> quiet (CoreDb demo_env 0) (?d\<lparr>strand := 1\<rparr>) r'"
  proof (intro allI impI)
    fix r' :: int
    assume "1 < r' \<and> r' < 3"
    then have "r' = 2" by arith
    then show "quiet (CoreDb demo_env 0) (?d\<lparr>strand := 1\<rparr>) r'"
      using d2 by simp
  qed
  have pieces: "pieces_by_rank demo_env
        (get_coord_conversion (CoreDb demo_env 0) (?d\<lparr>strand := 1\<rparr>) ''supercontig'') =
      Inr [''CCGGT'']"
    by code_simp
  have asm: "assemble_seq [''CCGGT''] (start ?d) (end' ?d)
               (query_positions
                  (get_coord_conversion (CoreDb demo_env 0) (?d\<lparr>strand := 1\<rparr>) ''supercontig'')) =
             Inr ''CCGGT''"
    by code_simp
  have st: "strand ?d = - 1" by (simp add: demo_coord_def)
  have rcs: "rc ''CCGGT'' = ''ACCGG''" by code_simp
  note t2 = get_sequence_no_mapping [OF a2 b2 c2,
      where query = ?query and seq = ?seq and r = 3 and ct = "''supercontig''" and strand' = 1]
  have "snd (get_sequence demo_env [?d] (Some 0) 0 [] 0 0 1) =
        (case pieces_by_rank demo_env
                (get_coord_conversion (CoreDb demo_env (genome ?d)) (?d\<lparr>strand := 1\<rparr>)
                   ''supercontig'') of
           Inl e \<Rightarrow> Inl e
         | Inr seqs \<Rightarrow>
             (case assemble_seq seqs (start ?d) (end' ?d)
                     (query_positions
                        (get_coord_conversion (CoreDb demo_env (genome ?d)) (?d\<lparr>strand := 1\<rparr>)
                           ''supercontig'')) of
                Inl e \<Rightarrow> Inl e
              | Inr sequence \<Rightarrow> Inr (if strand ?d = - 1 then rc sequence else sequence)))"
  proof (rule t2 [THEN conjunct2, THEN conjunct1, THEN mp])
    show "map_of (coord_system (CoreDb demo_env (genome ?d))) (coord_type ?d) = Some ?query
        \<and> map_of (coord_system (CoreDb demo_env (genome ?d))) (seq_level (CoreDb demo_env (genome ?d))) =
            Some ?seq
        \<and> rank ?query < 3 \<and> 3 < rank ?seq
        \<and> coord_type_at (coord_system (CoreDb demo_env (genome ?d))) 3 = Some ''supercontig''
        \<and> get_coord_conversion (CoreDb demo_env (genome ?d)) (?d\<lparr>strand := 1\<rparr>) ''supercontig'' \<noteq> []
        \<and> (\<forall>r'. rank ?query < r' \<and> r' < 3
                \<longrightarrow> quiet (CoreDb demo_env (genome ?d)) (?d\<lparr>strand := 1\<rparr>) r')"
      using q2 s2 ct3 conv before g2 by simp
  qed
  then have e2: "snd (get_sequence demo_env [?d] (Some 0) 0 [] 0 0 1) = Inr ''ACCGG''"
    by (simp add: g2 pieces asm st rcs)
  have c2': "get_coord_conversion (CoreDb demo_env 0) (?d\<lparr>strand := 1\<rparr>)
             (seq_level (CoreDb demo_env 0)) = []"
    using c2 g2 by simp
  from a c q s quiet2 quiet3 e g a2 c2' d2 ct3 conv pieces e2 show ?thesis
    by (simp add: demo_coord_def)
qed

theorem get_lower_coord_conversion_first_rank_witness:
  "map_of (coord_system demo_db) (coord_type (demo_coord ''2'' 0 3 1)) =
     Some \<lparr>name = ''chromosome'', rank = 1\<rparr>
   \<and> map_of (coord_system demo_db) (seq_level demo_db) = Some \<lparr>name = ''contig'', rank = 4\<rparr>
   \<and> coord_type_at (coord_system demo_db) 2 = None
   \<and> coord_type_at (coord_system demo_db) 3 = Some ''supercontig''
   \<and> get_lower_coord_conversion demo_db (demo_coord ''2'' 0 3 1) =
       Inr (Some [(demo_coord ''2'' 0 3 1,
                   (demo_coord ''2'' 0 3 1)\<lparr>coord_type := ''supercontig'', coord_name := ''s1'',
                                             strand := - 1\<rparr>)])"
proof -
  have q: "map_of (coord_system demo_db) (coord_type (demo_coord ''2'' 0 3 1)) =
     Some \<lparr>name = ''chromosome'', rank = 1\<rparr>"
    by (simp add: demo_db_def demo_coord_def)
  have s: "map_of (coord_system demo_db) (seq_level demo_db) = Some \<lparr>name = ''contig'', rank = 4\<rparr>"
    by (simp add: demo_db_def)
  have c2: "coord_type_at (coord_system demo_db) 2 = None"
    by (simp add: coord_type_at_def demo_db_def)
  have c3: "coord_type_at (coord_system demo_db) 3 = Some ''supercontig''"
    by (simp add: coord_type_at_def demo_db_def)
  have conv: "get_coord_conversion demo_db (demo_coord ''2'' 0 3 1) ''supercontig'' =
      [(demo_coord ''2'' 0 3 1,
        (demo_coord ''2'' 0 3 1)\<lparr>coord_type := ''supercontig'', coord_name := ''s1'', strand := - 1\<rparr>)]"
    by (simp add: demo_db_def demo_conversion_def demo_coord_def)
  have nq: "\<not> quiet demo_db (demo_coord ''2'' 0 3 1) 3"
    by (simp add: quiet_def c3 conv)
  from get_lower_coord_conversion_first_rank [OF q s]
  have "get_lower_coord_conversion demo_db (demo_coord ''2'' 0 3 1) =
        Inr (Some (get_coord_conversion demo_db (demo_coord ''2'' 0 3 1) ''supercontig''))"
  proof (elim disjE exE conjE)
    fix r ct
    assume r: "rank \<lparr>name = ''chromosome'', rank = 1\<rparr> < r" "r < rank \<lparr>name = ''contig'', rank = 4\<rparr>"
      and ct: "coord_type_at (coord_system demo_db) r = Some ct"
      and res: "get_lower_coord_conversion demo_db (demo_coord ''2'' 0 3 1) =
                Inr (Some (get_coord_conversion demo_db (demo_coord ''2'' 0 3 1) ct))"
    from r have "r = 2 \<or> r = 3" by simp arith
    with ct c2 c3 have "ct = ''supercontig''" by auto
    with res show ?thesis by simp
  next
    assume "\<forall>r. rank \<lparr>name = ''chromosome'', rank = 1\<rparr> < r \<and> r < rank \<lparr>name = ''contig'', rank = 4\<rparr>
              \<longrightarrow> quiet demo_db (demo_coord ''2'' 0 3 1) r"
    then have "quiet demo_db (demo_coord ''2'' 0 3 1) 3" by simp
    with nq show ?thesis by simp
  next
    assume "\<forall>r. rank \<lparr>name = ''chromosome'', rank = 1\<rparr> < r \<and> r < rank \<lparr>name = ''contig'', rank = 4\<rparr>
              \<longrightarrow> quiet demo_db (demo_coord ''2'' 0 3 1) r"
    then have "quiet demo_db (demo_coord ''2'' 0 3 1) 3" by simp
    with nq show ?thesis by simp
  qed
  with q s c2 c3 conv show ?thesis by simp
qed

section \<open>Properties of related_region.py\<close>

subsection \<open>States that differ in one member\<close>

lemma member_rows_Nil [simp]:
  "member_rows env lo hi b feature_types where_feature [] = Inr []"
  by (simp add: member_rows_def)

lemma member_rows_Cons [simp]:
  "member_rows env lo hi b feature_types where_feature (m # ms) =
     (case member_resolve env lo hi m of
        Inl e \<Rightarrow>
          (if e = IndexError
           then member_rows env lo hi b feature_types where_feature ms
           else Inl e)
      | Inr (am, l, region) \<Rightarrow>
          (case region_seq env region feature_types where_feature of
             Inl e \<Rightarrow> Inl e
           | Inr seq \<Rightarrow>
               (case member_rows env lo hi b feature_types where_feature ms of
                  Inl e \<Rightarrow> Inl e
                | Inr rows \<Rightarrow> Inr (row_of env b am region seq # rows))))"
  by (simp add: member_rows_def split: sum.splits prod.splits)

lemma differ_atI:
  "i < length (members p) \<Longrightarrow> differ_at p (p\<lparr>members := (members p)[i := x]\<rparr>) i"
  by (simp add: differ_at_def)

lemma differ_at_refl: "differ_at p p i"
  by (simp add: differ_at_def)

lemma differ_at_fields:
  assumes "differ_at p p' i"
  shows "ref_location p' = ref_location p" and "cached_CigarStart p' = cached_CigarStart p"
    and "cached_CigarEnd p' = cached_CigarEnd p" and "do_rc p' = do_rc p"
    and "length (members p') = length (members p)"
    and "j \<noteq> i \<Longrightarrow> members p' ! j = members p ! j"
proof -
  from assms have e: "p' = p\<lparr>members := (members p)[i := members p' ! i]\<rparr>"
    by (simp add: differ_at_def)
  show "ref_location p' = ref_location p" by (subst e) simp
  show "cached_CigarStart p' = cached_CigarStart p" by (subst e) simp
  show "cached_CigarEnd p' = cached_CigarEnd p" by (subst e) simp
  show "do_rc p' = do_rc p" by (subst e) simp
  show "length (members p') = length (members p)" by (subst e) simp
  show "j \<noteq> i \<Longrightarrow> members p' ! j = members p ! j" by (subst e) simp
qed

lemma differ_at_trans:
  assumes "differ_at p p' i" and "differ_at p' p'' i"
  shows "differ_at p p'' i"
proof -
  from assms(1) have e1: "p' = p\<lparr>members := (members p)[i := members p' ! i]\<rparr>"
    by (simp add: differ_at_def)
  from assms(2) have e2: "p'' = p'\<lparr>members := (members p')[i := members p'' ! i]\<rparr>"
    by (simp add: differ_at_def)
  have "p'' = p\<lparr>members := (members p)[i := members p'' ! i]\<rparr>"
    by (subst e2, subst e1, subst e1) simp
  then show ?thesis by (simp add: differ_at_def)
qed

lemma relative_bounds_ref_start:
  "relative_bounds block_loc rl = (ref_start block_loc rl, ref_start block_loc rl + len rl)"
  by (simp add: relative_bounds_def ref_start_def Let_def)

lemma ref_resolveD:
  assumes "ref_resolve env rl self = Inr (m, l, region)"
  obtains block_loc cl where
    "make_location env (sr_genome self) (cached_name self) (dnafrag_start self)
       (dnafrag_end self) (dnafrag_strand self) = Inr block_loc"
    "cigar_line env (genomic_align_id self) = Inr cl"
    "slice_cigar env cl (ref_start block_loc rl) (ref_start block_loc rl + len rl) False = Inr (m, l)"
    "get_region env (sr_genome self) (rl\<lparr>strand := strand block_loc\<rparr>) = Inr region"
proof (cases "make_location env (sr_genome self) (cached_name self) (dnafrag_start self)
       (dnafrag_end self) (dnafrag_strand self)")
  case (Inl e)
  with assms show ?thesis by (simp add: ref_resolve_def)
next
  case (Inr block_loc)
  note ml = this
  show ?thesis
  proof (cases "cigar_line env (genomic_align_id self)")
    case (Inl e)
    with assms ml show ?thesis by (simp add: ref_resolve_def Let_def)
  next
    case (Inr cl)
    note c = this
    show ?thesis
    proof (cases "slice_cigar env cl (ref_start block_loc rl) (ref_start block_loc rl + len rl) False")
      case (Inl e)
      with assms ml c show ?thesis by (simp add: ref_resolve_def Let_def)
    next
      case (Inr ml')
      obtain m' l' where mlp: "ml' = (m', l')" by (cases ml')
      note sc = Inr[unfolded mlp]
      show ?thesis
      proof (cases "get_region env (sr_genome self) (rl\<lparr>strand := strand block_loc\<rparr>)")
        case (Inl e)
        with assms ml c sc show ?thesis by (simp add: ref_resolve_def Let_def)
      next
        case (Inr region')
        with assms ml c sc have "m' = m" "l' = l" "region' = region"
          by (simp_all add: ref_resolve_def Let_def)
        with that[OF ml c] sc Inr show ?thesis by simp
      qed
    qed
  qed
qed

lemma make_ref_map_resolve:
  assumes "aln_map (members p ! i) = None"
    and "ref_resolve env (ref_location p) (members p ! i) = Inr (m, l, region)"
  shows "make_ref_map env p i =
         (Inr (), p\<lparr>members := (members p)
                     [i := (members p ! i)\<lparr>aln_map := Some m, aln_loc := Some l,
                                           cached_Region := Some (Some region)\<rparr>]\<rparr>)"
proof -
  from assms(2) obtain block_loc cl where
    "make_location env (sr_genome (members p ! i)) (cached_name (members p ! i))
           (dnafrag_start (members p ! i)) (dnafrag_end (members p ! i))
           (dnafrag_strand (members p ! i)) = Inr block_loc"
    "cigar_line env (genomic_align_id (members p ! i)) = Inr cl"
    "slice_cigar env cl (ref_start block_loc (ref_location p))
       (ref_start block_loc (ref_location p) + len (ref_location p)) False = Inr (m, l)"
    "get_region env (sr_genome (members p ! i))
               ((ref_location p)\<lparr>strand := strand block_loc\<rparr>) = Inr region"
    by (rule ref_resolveD)
  with assms(1) show ?thesis
    by (simp add: make_ref_map_def relative_bounds_ref_start Let_def)
qed

lemma ref_resolve_fields:
  "sr_genome m' = sr_genome m \<Longrightarrow> cached_name m' = cached_name m \<Longrightarrow>
   dnafrag_start m' = dnafrag_start m \<Longrightarrow> dnafrag_end m' = dnafrag_end m \<Longrightarrow>
   dnafrag_strand m' = dnafrag_strand m \<Longrightarrow> genomic_align_id m' = genomic_align_id m \<Longrightarrow>
   ref_resolve env rl m' = ref_resolve env rl m"
  by (simp add: ref_resolve_def cong: sum.case_cong prod.case_cong)

lemma make_ref_map_again:
  assumes "aln_map (members p ! i) = Some m" and "aln_loc (members p ! i) = Some l"
    and "cached_Region (members p ! i) = Some (Some region)"
    and "ref_resolve env (ref_location p) (members p ! i) = Inr (m, l, region)"
  shows "make_ref_map env p i = (Inr (), p)"
proof -
  have s: "(members p ! i)\<lparr>aln_map := Some m, aln_loc := Some l,
             cached_Region := Some (Some region)\<rparr> = members p ! i"
    using assms(1-3) by (cases "members p ! i") simp
  from assms(4) obtain block_loc cl where
    "make_location env (sr_genome (members p ! i)) (cached_name (members p ! i))
           (dnafrag_start (members p ! i)) (dnafrag_end (members p ! i))
           (dnafrag_strand (members p ! i)) = Inr block_loc"
    "cigar_line env (genomic_align_id (members p ! i)) = Inr cl"
    "slice_cigar env cl (ref_start block_loc (ref_location p))
       (ref_start block_loc (ref_location p) + len (ref_location p)) False = Inr (m, l)"
    "get_region env (sr_genome (members p ! i))
               ((ref_location p)\<lparr>strand := strand block_loc\<rparr>) = Inr region"
    by (rule ref_resolveD)
  with assms(1,2) s show ?thesis
    by (simp add: make_ref_map_def relative_bounds_ref_start Let_def)
qed

subsection \<open>The reference member\<close>

lemma populate_ref_fresh:
  assumes "0 < length (members p)" and "aln_map (members p ! 0) = None"
    and "ref_resolve env (ref_location p) (members p ! 0) = Inr (m, lo # hi # rest, region)"
  shows "populate_ref env p =
         (Inr (), p\<lparr>members := (members p)
                     [0 := (members p ! 0)\<lparr>aln_map := Some m, aln_loc := Some (lo # hi # rest),
                                           cached_Region := Some (Some region)\<rparr>],
                    cached_CigarStart := Some lo, cached_CigarEnd := Some hi\<rparr>)"
  using assms(1) by (simp add: populate_ref_def make_ref_map_resolve[OF assms(2,3)])

lemma populate_ref_again:
  assumes "aln_map (members p ! 0) = Some m" and "aln_loc (members p ! 0) = Some (lo # hi # rest)"
    and "cached_Region (members p ! 0) = Some (Some region)"
    and "ref_resolve env (ref_location p) (members p ! 0) = Inr (m, lo # hi # rest, region)"
  shows "populate_ref env p = (Inr (), p\<lparr>cached_CigarStart := Some lo, cached_CigarEnd := Some hi\<rparr>)"
  using assms(2) by (simp add: populate_ref_def make_ref_map_again[OF assms])

lemma get_rc_state_resolved:
  assumes "aln_map (members p ! 0) = Some m" and "aln_loc (members p ! 0) = Some (lo # hi # rest)"
    and "cached_Region (members p ! 0) = Some (Some region)"
    and "ref_resolve env (ref_location p) (members p ! 0) = Inr (m, lo # hi # rest, region)"
    and "do_rc p = None"
  shows "get_rc_state env p =
         (Inr (strand (ref_location p) \<noteq> strand (location region)),
          p\<lparr>cached_CigarStart := Some lo, cached_CigarEnd := Some hi,
            do_rc := Some (strand (ref_location p) \<noteq> strand (location region))\<rparr>)"
  using assms(3,5) by (simp add: get_rc_state_def populate_ref_again[OF assms(1-4)] Let_def)

lemma get_rc_state_cached: "do_rc p = Some b \<Longrightarrow> get_rc_state env p = (Inr b, p)"
  by (simp add: get_rc_state_def)

lemma get_location_cached:
  "cached_Region (members p ! i) = Some (Some region) \<Longrightarrow>
   get_location env p i = (Inr (location region), p)"
  by (simp add: get_location_def get_Region_def)

lemma make_aligned_ref:
  assumes len: "0 < length (members p)"
    and ref: "am_ref_member (members p ! 0)"
    and fresh: "aln_map (members p ! 0) = None"
    and res: "ref_resolve env (ref_location p) (members p ! 0) = Inr (m, l, region)"
    and sq: "region_seq env region feature_types where_feature = Inr seq"
  shows "make_aligned env p 0 feature_types where_feature =
         (Inr (), p\<lparr>members := (members p)
                     [0 := (members p ! 0)\<lparr>aln_map := Some m, aln_loc := Some l,
                                           cached_Region := Some (Some region),
                                           cached_AlignedSeq := Some (Some \<lparr>amap = m, data = seq\<rparr>)\<rparr>]\<rparr>)"
proof -
  have mm: "make_map_func env p 0 =
         (Inr (), p\<lparr>members := (members p)
                     [0 := (members p ! 0)\<lparr>aln_map := Some m, aln_loc := Some l,
                                           cached_Region := Some (Some region)\<rparr>]\<rparr>)"
    using ref by (simp add: make_map_func_def make_ref_map_resolve[OF fresh res])
  show ?thesis
  proof (cases "feature_types = []")
    case True
    with sq have "region_Seq env region = Inr seq" by (simp add: region_seq_def)
    with True len fresh mm show ?thesis by (simp add: make_aligned_def Let_def)
  next
    case False
    with sq have "get_annotated_seq env region feature_types where_feature = Inr seq"
      by (simp add: region_seq_def)
    with False len fresh mm show ?thesis by (simp add: make_aligned_def Let_def)
  qed
qed

lemma ref_member_value:
  assumes len: "0 < length (members p)"
    and ref: "am_ref_member (members p ! 0)"
    and fresh: "aln_map (members p ! 0) = None"
    and init: "cached_Region (members p ! 0) = Some (Some region_init)"
    and noseq: "cached_AlignedSeq (members p ! 0) = None"
    and res: "ref_resolve env (ref_location p) (members p ! 0) = Inr (m, l, region)"
    and sq: "region_seq env region feature_types where_feature = Inr seq"
  shows "(if feature_types \<noteq> [] then get_annotated_aligned env p 0 feature_types where_feature
          else AlignedSeq env p 0) =
         (Inr (Some \<lparr>amap = m, data = seq\<rparr>),
          p\<lparr>members := (members p)
                     [0 := (members p ! 0)\<lparr>aln_map := Some m, aln_loc := Some l,
                                           cached_Region := Some (Some region),
                                           cached_AlignedSeq := Some (Some \<lparr>amap = m, data = seq\<rparr>)\<rparr>]\<rparr>)"
proof (cases "feature_types = []")
  case True
  from sq True have sq': "region_seq env region [] None = Inr seq" by (simp add: region_seq_def)
  from True noseq len show ?thesis
    by (simp add: AlignedSeq_def make_aligned_ref[OF len ref fresh res sq'])
next
  case False
  with init len show ?thesis
    by (simp add: get_annotated_aligned_def get_Region_def AlignedSeq_def
        make_aligned_ref[OF len ref fresh res sq])
qed

lemma loop_ref_step:
  assumes len: "0 < length (members p)"
    and ref: "am_ref_member (members p ! 0)"
    and fresh: "aln_map (members p ! 0) = None"
    and init: "cached_Region (members p ! 0) = Some (Some region_init)"
    and noseq: "cached_AlignedSeq (members p ! 0) = None"
    and norc: "do_rc p = None"
    and res: "ref_resolve env (ref_location p) (members p ! 0) = Inr (m, lo # hi # rest, region)"
    and sq: "region_seq env region feature_types where_feature = Inr seq"
  shows "\<exists>p'. alignment_loop env p (0 # js) feature_types where_feature seqs =
              alignment_loop env p' js feature_types where_feature
                (seqs @ [row_of env (strand (ref_location p) \<noteq> strand (location region)) m region seq])
            \<and> differ_at (p\<lparr>cached_CigarStart := Some lo, cached_CigarEnd := Some hi,
                            do_rc := Some (strand (ref_location p) \<noteq> strand (location region))\<rparr>) p' 0
            \<and> cached_Region (members p' ! 0) = Some (Some region)"
proof -
  define b where "b = (strand (ref_location p) \<noteq> strand (location region))"
  let ?m1 = "(members p ! 0)\<lparr>aln_map := Some m, aln_loc := Some (lo # hi # rest),
                             cached_Region := Some (Some region),
                             cached_AlignedSeq := Some (Some \<lparr>amap = m, data = seq\<rparr>)\<rparr>"
  let ?p1 = "p\<lparr>members := (members p)[0 := ?m1]\<rparr>"
  note v = ref_member_value[OF len ref fresh init noseq res sq]
  have r1: "ref_resolve env (ref_location ?p1) (members ?p1 ! 0) = Inr (m, lo # hi # rest, region)"
    using len res ref_resolve_fields[of ?m1 "members p ! 0" env "ref_location p"] by simp
  have rc: "get_rc_state env ?p1 =
         (Inr b, ?p1\<lparr>cached_CigarStart := Some lo, cached_CigarEnd := Some hi, do_rc := Some b\<rparr>)"
    using get_rc_state_resolved[of ?p1 m lo hi rest region env] r1 len norc by (simp add: b_def)
  let ?p2 = "?p1\<lparr>cached_CigarStart := Some lo, cached_CigarEnd := Some hi, do_rc := Some b\<rparr>"
  have loc: "get_location env ?p2 0 = (Inr (location region), ?p2)"
    using len by (simp add: get_location_cached)
  let ?row = "row_of env b m region seq"
  let ?p4 = "?p2\<lparr>members := (members ?p2)
                 [0 := (members ?p2 ! 0)\<lparr>cached_AlignedSeq := Some (Some (snd ?row))\<rparr>]\<rparr>"
  have step: "alignment_loop env p (0 # js) feature_types where_feature seqs =
              alignment_loop env ?p4 js feature_types where_feature (seqs @ [?row])"
  proof (cases b)
    case True
    then have bT: "b = True" by simp
    show ?thesis
      unfolding bT
      by (simp only: alignment_loop.simps v prod.case sum.case option.case Let_def
            rc[unfolded bT] loc[unfolded bT] if_True)
         (simp add: row_of_def Let_def)
  next
    case False
    then have bF: "b = False" by simp
    show ?thesis
      unfolding bF
      by (simp only: alignment_loop.simps v prod.case sum.case option.case Let_def
            rc[unfolded bF] if_False)
         (simp add: row_of_def Let_def)
  qed
  have d: "differ_at (p\<lparr>cached_CigarStart := Some lo, cached_CigarEnd := Some hi, do_rc := Some b\<rparr>) ?p4 0"
    using len by (simp add: differ_at_def)
  have c: "cached_Region (members ?p4 ! 0) = Some (Some region)"
    using len by simp
  from step d c show ?thesis unfolding b_def by blast
qed

subsection \<open>The other members\<close>

lemma CigarStart_cached: "cached_CigarStart p = Some v \<Longrightarrow> CigarStart env p = (Inr v, p)"
  by (simp add: CigarStart_def)

lemma CigarEnd_cached: "cached_CigarEnd p = Some v \<Longrightarrow> CigarEnd env p = (Inr v, p)"
  by (simp add: CigarEnd_def)

lemma try_cached:
  assumes i: "i < length (members p)"
    and cs: "cached_CigarStart p = Some lo" and ce: "cached_CigarEnd p = Some hi"
  shows "case member_resolve env lo hi (members p ! i) of
           Inr (am, l, region) \<Rightarrow>
             make_map_from_ref_try env p i =
               (Inr region,
                p\<lparr>members := (members p)
                     [i := (members p ! i)\<lparr>aln_map := Some am, aln_loc := Some l\<rparr>]\<rparr>)
         | Inl e \<Rightarrow>
             (\<exists>p'. make_map_from_ref_try env p i = (Inl e, p') \<and> differ_at p p' i
                  \<and> cached_Region (members p' ! i) = cached_Region (members p ! i)
                  \<and> cached_AlignedSeq (members p' ! i) = cached_AlignedSeq (members p ! i)
                  \<and> am_ref_member (members p' ! i) = am_ref_member (members p ! i))"
proof -
  let ?self = "members p ! i"
  note cst = CigarStart_cached[OF cs, of env] and cen = CigarEnd_cached[OF ce, of env]
  show ?thesis
  proof (cases "cigar_line env (genomic_align_id ?self)")
    case (Inl e)
    then show ?thesis
      by (simp add: member_resolve_def make_map_from_ref_try_def differ_at_refl)
  next
    case (Inr cl)
    note c = this
    show ?thesis
    proof (cases "slice_cigar env cl lo hi True")
      case (Inl e)
      with c show ?thesis
        by (simp add: member_resolve_def make_map_from_ref_try_def cst cen differ_at_refl)
    next
      case (Inr ml)
      obtain am l where ml: "ml = (am, l)" by (cases ml)
      note sc = Inr[unfolded ml]
      let ?p3 = "p\<lparr>members := (members p)[i := ?self\<lparr>aln_map := Some am, aln_loc := Some l\<rparr>]\<rparr>"
      have d3: "differ_at p ?p3 i" using i by (rule differ_atI)
      have f3: "cached_Region (members ?p3 ! i) = cached_Region ?self"
        "cached_AlignedSeq (members ?p3 ! i) = cached_AlignedSeq ?self"
        "am_ref_member (members ?p3 ! i) = am_ref_member ?self"
        using i by simp_all
      show ?thesis
      proof (cases "make_location env (sr_genome ?self) (cached_name ?self) (dnafrag_start ?self)
                       (dnafrag_end ?self) (dnafrag_strand ?self)")
        case (Inl e)
        have "make_map_from_ref_try env p i = (Inl e, ?p3)"
          using c sc Inl by (simp add: make_map_from_ref_try_def cst cen Let_def)
        moreover have "member_resolve env lo hi ?self = Inl e"
          using c sc Inl by (simp add: member_resolve_def)
        ultimately show ?thesis using d3 f3 by auto
      next
        case (Inr block_loc)
        note bl = this
        show ?thesis
        proof (cases l)
          case Nil
          have "make_map_from_ref_try env p i = (Inl IndexError, ?p3)"
            using c sc bl Nil by (simp add: make_map_from_ref_try_def cst cen Let_def)
          moreover have "member_resolve env lo hi ?self = Inl IndexError"
            using c sc bl Nil by (simp add: member_resolve_def)
          ultimately show ?thesis using d3 f3 by auto
        next
          case (Cons rs l')
          note l1 = this
          show ?thesis
          proof (cases l')
            case Nil
            have "make_map_from_ref_try env p i = (Inl IndexError, ?p3)"
              using c sc bl l1 Nil by (simp add: make_map_from_ref_try_def cst cen Let_def)
            moreover have "member_resolve env lo hi ?self = Inl IndexError"
              using c sc bl l1 Nil by (simp add: member_resolve_def)
            ultimately show ?thesis using d3 f3 by auto
          next
            case (Cons re l'')
            note l2 = this
            let ?loc = "shifted (block_loc\<lparr>end' := start block_loc + (re - rs)\<rparr>)
                          (if strand block_loc \<noteq> 1 then len block_loc - re else rs)"
            show ?thesis
            proof (cases "get_region env (sr_genome ?self) ?loc")
              case (Inl e)
              have "make_map_from_ref_try env p i = (Inl e, ?p3)"
                using c sc bl l1 l2 Inl by (simp add: make_map_from_ref_try_def cst cen Let_def)
              moreover have "member_resolve env lo hi ?self = Inl e"
                using c sc bl l1 l2 Inl by (simp add: member_resolve_def)
              ultimately show ?thesis using d3 f3 by auto
            next
              case (Inr region)
              have "make_map_from_ref_try env p i = (Inr region, ?p3)"
                using c sc bl l1 l2 Inr by (simp add: make_map_from_ref_try_def cst cen Let_def)
              moreover have "member_resolve env lo hi ?self = Inr (am, l, region)"
                using c sc bl l1 l2 Inr by (simp add: member_resolve_def)
              ultimately show ?thesis by simp
            qed
          qed
        qed
      qed
    qed
  qed
qed

lemma make_map_from_ref_fresh:
  assumes i: "i < length (members p)"
    and cs: "cached_CigarStart p = Some lo" and ce: "cached_CigarEnd p = Some hi"
    and fresh: "aln_loc (members p ! i) = None"
  shows "case member_resolve env lo hi (members p ! i) of
           Inr (am, l, region) \<Rightarrow>
             make_map_from_ref env p i =
               (Inr (),
                p\<lparr>members := (members p)
                     [i := (members p ! i)\<lparr>aln_map := Some am, aln_loc := Some l,
                                           cached_Region := Some (Some region)\<rparr>]\<rparr>)
         | Inl e \<Rightarrow>
             (if e = IndexError
              then (\<exists>p'. make_map_from_ref env p i = (Inr (), p') \<and> differ_at p p' i
                      \<and> cached_Region (members p' ! i) = Some None
                      \<and> cached_AlignedSeq (members p' ! i) = cached_AlignedSeq (members p ! i))
              else fst (make_map_from_ref env p i) = Inl e)"
proof (cases "member_resolve env lo hi (members p ! i)")
  case (Inr r)
  obtain am l region where r: "r = (am, l, region)" by (cases r)
  from try_cached[OF i cs ce, of env] Inr r
  have t: "make_map_from_ref_try env p i =
               (Inr region,
                p\<lparr>members := (members p)
                     [i := (members p ! i)\<lparr>aln_map := Some am, aln_loc := Some l\<rparr>]\<rparr>)"
    by simp
  show ?thesis using Inr r fresh i by (simp add: make_map_from_ref_def t Let_def)
next
  case (Inl e)
  from try_cached[OF i cs ce, of env] Inl
  obtain p1 where t: "make_map_from_ref_try env p i = (Inl e, p1)" and d: "differ_at p p1 i"
    and f: "cached_Region (members p1 ! i) = cached_Region (members p ! i)"
      "cached_AlignedSeq (members p1 ! i) = cached_AlignedSeq (members p ! i)"
    by auto
  from differ_at_fields(5)[OF d] i have i1: "i < length (members p1)" by simp
  show ?thesis
  proof (cases "e = IndexError")
    case True
    let ?p2 = "p1\<lparr>members := (members p1)[i := (members p1 ! i)\<lparr>cached_Region := Some None\<rparr>]\<rparr>"
    have m: "make_map_from_ref env p i = (Inr (), ?p2)"
      using fresh t True by (simp add: make_map_from_ref_def Let_def)
    have d2: "differ_at p ?p2 i"
      by (rule differ_at_trans[OF d differ_atI[OF i1]])
    have c: "cached_Region (members ?p2 ! i) = Some None"
      "cached_AlignedSeq (members ?p2 ! i) = cached_AlignedSeq (members p ! i)"
      using i1 f by simp_all
    from m d2 c Inl True show ?thesis by auto
  next
    case False
    have "make_map_from_ref env p i = (Inl e, p1)"
      using fresh t False by (cases e) (simp_all add: make_map_from_ref_def Let_def)
    with Inl False show ?thesis by simp
  qed
qed

lemma member_value:
  assumes i: "i < length (members p)"
    and cs: "cached_CigarStart p = Some lo" and ce: "cached_CigarEnd p = Some hi"
    and fresh: "fresh_member (members p ! i)"
  shows "case member_resolve env lo hi (members p ! i) of
           Inr (am, l, region) \<Rightarrow>
             (case region_seq env region feature_types where_feature of
                Inr seq \<Rightarrow>
                  (if feature_types \<noteq> [] then get_annotated_aligned env p i feature_types where_feature
                   else AlignedSeq env p i) =
                  (Inr (Some \<lparr>amap = am, data = seq\<rparr>),
                   p\<lparr>members := (members p)
                     [i := (members p ! i)\<lparr>aln_map := Some am, aln_loc := Some l,
                                           cached_Region := Some (Some region),
                                           cached_AlignedSeq := Some (Some \<lparr>amap = am, data = seq\<rparr>)\<rparr>]\<rparr>)
              | Inl e \<Rightarrow>
                  fst (if feature_types \<noteq> [] then get_annotated_aligned env p i feature_types where_feature
                       else AlignedSeq env p i) = Inl e)
         | Inl e \<Rightarrow>
             (if e = IndexError
              then (\<exists>p'. (if feature_types \<noteq> []
                          then get_annotated_aligned env p i feature_types where_feature
                          else AlignedSeq env p i) = (Inr None, p')
                      \<and> differ_at p p' i \<and> cached_Region (members p' ! i) = Some None)
              else fst (if feature_types \<noteq> [] then get_annotated_aligned env p i feature_types where_feature
                        else AlignedSeq env p i) = Inl e)"
proof -
  from fresh have fr: "\<not> am_ref_member (members p ! i)" "aln_map (members p ! i) = None"
    "aln_loc (members p ! i) = None" "cached_Region (members p ! i) = None"
    "cached_AlignedSeq (members p ! i) = None"
    by (simp_all add: fresh_member_def)
  note mm = make_map_from_ref_fresh[OF i cs ce fr(3), of env]
  have mf: "make_map_func env p i = make_map_from_ref env p i"
    using fr(1) by (simp add: make_map_func_def)
  show ?thesis
  proof (cases "member_resolve env lo hi (members p ! i)")
    case (Inr r)
    obtain am l region where r: "r = (am, l, region)" by (cases r)
    let ?p1 = "p\<lparr>members := (members p)
                     [i := (members p ! i)\<lparr>aln_map := Some am, aln_loc := Some l,
                                           cached_Region := Some (Some region)\<rparr>]\<rparr>"
    from mm Inr r have m: "make_map_from_ref env p i = (Inr (), ?p1)" by simp
    show ?thesis
    proof (cases "region_seq env region feature_types where_feature")
      case (Inl e)
      show ?thesis
      proof (cases "feature_types = []")
        case True
        with Inl have "region_Seq env region = Inl e" by (simp add: region_seq_def)
        with True i fr m mf have "fst (AlignedSeq env p i) = Inl e"
          by (simp add: AlignedSeq_def make_aligned_def Let_def)
        with Inr r Inl True show ?thesis by simp
      next
        case False
        with Inl have "get_annotated_seq env region feature_types where_feature = Inl e"
          by (simp add: region_seq_def)
        with False i fr m mf
        have "fst (get_annotated_aligned env p i feature_types where_feature) = Inl e"
          by (simp add: get_annotated_aligned_def get_Region_def make_aligned_def Let_def)
        with Inr r Inl False show ?thesis by simp
      qed
    next
      case (Inr seq)
      note sq = this
      show ?thesis
      proof (cases "feature_types = []")
        case True
        with sq have "region_Seq env region = Inr seq" by (simp add: region_seq_def)
        with True i fr m mf have "AlignedSeq env p i =
                  (Inr (Some \<lparr>amap = am, data = seq\<rparr>),
                   p\<lparr>members := (members p)
                     [i := (members p ! i)\<lparr>aln_map := Some am, aln_loc := Some l,
                                           cached_Region := Some (Some region),
                                           cached_AlignedSeq := Some (Some \<lparr>amap = am, data = seq\<rparr>)\<rparr>]\<rparr>)"
          by (simp add: AlignedSeq_def make_aligned_def Let_def)
        with \<open>member_resolve env lo hi (members p ! i) = Inr r\<close> r sq True show ?thesis by simp
      next
        case False
        with sq have "get_annotated_seq env region feature_types where_feature = Inr seq"
          by (simp add: region_seq_def)
        with False i fr m mf have "get_annotated_aligned env p i feature_types where_feature =
                  (Inr (Some \<lparr>amap = am, data = seq\<rparr>),
                   p\<lparr>members := (members p)
                     [i := (members p ! i)\<lparr>aln_map := Some am, aln_loc := Some l,
                                           cached_Region := Some (Some region),
                                           cached_AlignedSeq := Some (Some \<lparr>amap = am, data = seq\<rparr>)\<rparr>]\<rparr>)"
          by (simp add: get_annotated_aligned_def get_Region_def make_aligned_def AlignedSeq_def Let_def)
        with \<open>member_resolve env lo hi (members p ! i) = Inr r\<close> r sq False show ?thesis by simp
      qed
    qed
  next
    case (Inl e)
    show ?thesis
    proof (cases "e = IndexError")
      case True
      from mm Inl True obtain p1 where m: "make_map_from_ref env p i = (Inr (), p1)"
        and d: "differ_at p p1 i" and c: "cached_Region (members p1 ! i) = Some None"
        and a: "cached_AlignedSeq (members p1 ! i) = cached_AlignedSeq (members p ! i)"
        by auto
      from differ_at_fields(5)[OF d] i have i1: "i < length (members p1)" by simp
      show ?thesis
      proof (cases "feature_types = []")
        case ft: True
        let ?p2 = "p1\<lparr>members := (members p1)[i := (members p1 ! i)\<lparr>cached_AlignedSeq := Some None\<rparr>]\<rparr>"
        have "AlignedSeq env p i = (Inr None, ?p2)"
          using fr m mf c i1 by (simp add: AlignedSeq_def make_aligned_def Let_def)
        moreover have "differ_at p ?p2 i" by (rule differ_at_trans[OF d differ_atI[OF i1]])
        moreover have "cached_Region (members ?p2 ! i) = Some None" using i1 c by simp
        ultimately show ?thesis using Inl True ft by auto
      next
        case ft: False
        have "get_annotated_aligned env p i feature_types where_feature = (Inr None, p1)"
          using fr m mf c by (simp add: get_annotated_aligned_def get_Region_def)
        with d c Inl True ft show ?thesis by auto
      qed
    next
      case False
      from mm Inl False have m: "fst (make_map_from_ref env p i) = Inl e" by simp
      then obtain p1 where m1: "make_map_from_ref env p i = (Inl e, p1)"
        by (cases "make_map_from_ref env p i") simp
      show ?thesis
      proof (cases "feature_types = []")
        case ft: True
        have "fst (AlignedSeq env p i) = Inl e"
          using fr m1 mf by (simp add: AlignedSeq_def make_aligned_def Let_def)
        with Inl False ft show ?thesis by simp
      next
        case ft: False
        have "fst (get_annotated_aligned env p i feature_types where_feature) = Inl e"
          using fr m1 mf by (simp add: get_annotated_aligned_def get_Region_def)
        with Inl False ft show ?thesis by simp
      qed
    qed
  qed
qed

lemma loop_member_step:
  assumes i: "i < length (members p)"
    and cs: "cached_CigarStart p = Some lo" and ce: "cached_CigarEnd p = Some hi"
    and rc: "do_rc p = Some b"
    and fresh: "fresh_member (members p ! i)"
  shows "case member_resolve env lo hi (members p ! i) of
           Inr (am, l, region) \<Rightarrow>
             (case region_seq env region feature_types where_feature of
                Inr seq \<Rightarrow>
                  (\<exists>p'. alignment_loop env p (i # js) feature_types where_feature seqs =
                         alignment_loop env p' js feature_types where_feature
                           (seqs @ [row_of env b am region seq])
                       \<and> differ_at p p' i)
              | Inl e \<Rightarrow>
                  fst (alignment_loop env p (i # js) feature_types where_feature seqs) = Inl e)
         | Inl e \<Rightarrow>
             (if e = IndexError
              then (\<exists>p'. alignment_loop env p (i # js) feature_types where_feature seqs =
                         alignment_loop env p' js feature_types where_feature seqs
                       \<and> differ_at p p' i \<and> cached_Region (members p' ! i) = Some None)
              else fst (alignment_loop env p (i # js) feature_types where_feature seqs) = Inl e)"
proof -
  let ?V = "if feature_types \<noteq> [] then get_annotated_aligned env p i feature_types where_feature
            else AlignedSeq env p i"
  note mv = member_value[OF i cs ce fresh, where env = env and feature_types = feature_types
      and where_feature = where_feature]
  show ?thesis
  proof (cases "member_resolve env lo hi (members p ! i)")
    case (Inl e)
    show ?thesis
    proof (cases "e = IndexError")
      case True
      from mv Inl True obtain p' where v: "?V = (Inr None, p')" and d: "differ_at p p' i"
        and c: "cached_Region (members p' ! i) = Some None"
        by auto
      have "alignment_loop env p (i # js) feature_types where_feature seqs =
            alignment_loop env p' js feature_types where_feature seqs"
        by (simp only: alignment_loop.simps v prod.case sum.case option.case)
      with d c Inl True show ?thesis by auto
    next
      case False
      from mv Inl False have "fst ?V = Inl e" by simp
      then obtain p' where v: "?V = (Inl e, p')" by (cases ?V) simp
      have "alignment_loop env p (i # js) feature_types where_feature seqs = (Inl e, p')"
        by (simp only: alignment_loop.simps v prod.case sum.case)
      with Inl False show ?thesis by simp
    qed
  next
    case (Inr r)
    obtain am l region where r: "r = (am, l, region)" by (cases r)
    show ?thesis
    proof (cases "region_seq env region feature_types where_feature")
      case (Inl e)
      from mv Inr r Inl have "fst ?V = Inl e" by simp
      then obtain p' where v: "?V = (Inl e, p')" by (cases ?V) simp
      have "alignment_loop env p (i # js) feature_types where_feature seqs = (Inl e, p')"
        by (simp only: alignment_loop.simps v prod.case sum.case)
      with \<open>member_resolve env lo hi (members p ! i) = Inr r\<close> r Inl show ?thesis by simp
    next
      case (Inr seq)
      let ?m1 = "(members p ! i)\<lparr>aln_map := Some am, aln_loc := Some l,
                                 cached_Region := Some (Some region),
                                 cached_AlignedSeq := Some (Some \<lparr>amap = am, data = seq\<rparr>)\<rparr>"
      let ?p1 = "p\<lparr>members := (members p)[i := ?m1]\<rparr>"
      from mv \<open>member_resolve env lo hi (members p ! i) = Inr r\<close> r Inr
      have v: "?V = (Inr (Some \<lparr>amap = am, data = seq\<rparr>), ?p1)" by simp
      have rc1: "get_rc_state env ?p1 = (Inr b, ?p1)"
        using rc by (simp add: get_rc_state_cached)
      have loc: "get_location env ?p1 i = (Inr (location region), ?p1)"
        using i by (simp add: get_location_cached)
      let ?row = "row_of env b am region seq"
      let ?p4 = "?p1\<lparr>members := (members ?p1)
                     [i := (members ?p1 ! i)\<lparr>cached_AlignedSeq := Some (Some (snd ?row))\<rparr>]\<rparr>"
      have step: "alignment_loop env p (i # js) feature_types where_feature seqs =
                  alignment_loop env ?p4 js feature_types where_feature (seqs @ [?row])"
      proof (cases b)
        case True
        then have bT: "b = True" by simp
        show ?thesis
          unfolding bT
          by (simp only: alignment_loop.simps v prod.case sum.case option.case Let_def
                rc1[unfolded bT] loc if_True)
             (simp add: row_of_def Let_def)
      next
        case False
        then have bF: "b = False" by simp
        show ?thesis
          unfolding bF
          by (simp only: alignment_loop.simps v prod.case sum.case option.case Let_def
                rc1[unfolded bF] if_False)
             (simp add: row_of_def Let_def)
      qed
      have d: "differ_at p ?p4 i" using i by (simp add: differ_at_def)
      from step d \<open>member_resolve env lo hi (members p ! i) = Inr r\<close> r Inr
      show ?thesis by auto
    qed
  qed
qed

lemma differ_at_drop:
  assumes "differ_at p p' k"
  shows "drop (Suc k) (members p') = drop (Suc k) (members p)"
proof -
  from assms have e: "p' = p\<lparr>members := (members p)[k := members p' ! k]\<rparr>"
    by (simp add: differ_at_def)
  show ?thesis by (subst e) simp
qed

lemma loop_members:
  assumes "n - k = d" and "length (members p) = n"
    and "cached_CigarStart p = Some lo" and "cached_CigarEnd p = Some hi" and "do_rc p = Some b"
    and "\<forall>j. k \<le> j \<and> j < n \<longrightarrow> fresh_member (members p ! j)"
  shows "\<exists>pF. alignment_loop env p [k..<n] feature_types where_feature seqs =
               ((case member_rows env lo hi b feature_types where_feature (drop k (members p)) of
                   Inl e \<Rightarrow> Inl e
                 | Inr rows \<Rightarrow> Inr (seqs @ rows)), pF)
            \<and> (\<forall>rows. member_rows env lo hi b feature_types where_feature (drop k (members p)) = Inr rows
                 \<longrightarrow> do_rc pF = Some b \<and> length (members pF) = n
                     \<and> (\<forall>j<k. members pF ! j = members p ! j)
                     \<and> (\<forall>j. k \<le> j \<and> j < n
                            \<and> member_resolve env lo hi (members p ! j) = Inl IndexError
                          \<longrightarrow> cached_Region (members pF ! j) = Some None))"
  using assms
proof (induction d arbitrary: k p seqs)
  case 0
  then have "[k..<n] = []" "drop k (members p) = []" by simp_all
  with 0 show ?case by auto
next
  case (Suc d)
  from Suc.prems have kn: "k < n" by simp
  then have up: "[k..<n] = k # [Suc k..<n]" by (simp add: upt_rec)
  from kn Suc.prems have dr: "drop k (members p) = members p ! k # drop (Suc k) (members p)"
    by (simp add: Cons_nth_drop_Suc)
  from kn Suc.prems have ik: "k < length (members p)" and fk: "fresh_member (members p ! k)"
    by simp_all
  note st = loop_member_step[OF ik Suc.prems(3) Suc.prems(4) Suc.prems(5) fk,
      where env = env and feature_types = feature_types and where_feature = where_feature
        and js = "[Suc k..<n]" and seqs = seqs]
  have cont: "\<exists>pF. alignment_loop env p' [Suc k..<n] feature_types where_feature seqs' =
               ((case member_rows env lo hi b feature_types where_feature (drop (Suc k) (members p)) of
                   Inl e \<Rightarrow> Inl e
                 | Inr rows \<Rightarrow> Inr (seqs' @ rows)), pF)
            \<and> (\<forall>rows. member_rows env lo hi b feature_types where_feature (drop (Suc k) (members p)) = Inr rows
                 \<longrightarrow> do_rc pF = Some b \<and> length (members pF) = n
                     \<and> (\<forall>j<k. members pF ! j = members p ! j)
                     \<and> members pF ! k = members p' ! k
                     \<and> (\<forall>j. Suc k \<le> j \<and> j < n
                            \<and> member_resolve env lo hi (members p ! j) = Inl IndexError
                          \<longrightarrow> cached_Region (members pF ! j) = Some None))"
    if d: "differ_at p p' k" for p' seqs'
  proof -
    note f = differ_at_fields[OF d]
    have a: "n - Suc k = d" using Suc.prems(1) by simp
    have l: "length (members p') = n" using f(5) Suc.prems(2) by simp
    have fr: "\<forall>j. Suc k \<le> j \<and> j < n \<longrightarrow> fresh_member (members p' ! j)"
      using f(6) Suc.prems(6) by simp
    from Suc.IH[OF a l _ _ _ fr, where seqs = seqs'] f Suc.prems(3,4,5)
    obtain pF where
      r: "alignment_loop env p' [Suc k..<n] feature_types where_feature seqs' =
               ((case member_rows env lo hi b feature_types where_feature (drop (Suc k) (members p')) of
                   Inl e \<Rightarrow> Inl e
                 | Inr rows \<Rightarrow> Inr (seqs' @ rows)), pF)"
      and s: "\<forall>rows. member_rows env lo hi b feature_types where_feature (drop (Suc k) (members p')) = Inr rows
                 \<longrightarrow> do_rc pF = Some b \<and> length (members pF) = n
                     \<and> (\<forall>j<Suc k. members pF ! j = members p' ! j)
                     \<and> (\<forall>j. Suc k \<le> j \<and> j < n
                            \<and> member_resolve env lo hi (members p' ! j) = Inl IndexError
                          \<longrightarrow> cached_Region (members pF ! j) = Some None)"
      by auto
    note dd = differ_at_drop[OF d]
    have "\<forall>rows. member_rows env lo hi b feature_types where_feature (drop (Suc k) (members p)) = Inr rows
                 \<longrightarrow> do_rc pF = Some b \<and> length (members pF) = n
                     \<and> (\<forall>j<k. members pF ! j = members p ! j)
                     \<and> members pF ! k = members p' ! k
                     \<and> (\<forall>j. Suc k \<le> j \<and> j < n
                            \<and> member_resolve env lo hi (members p ! j) = Inl IndexError
                          \<longrightarrow> cached_Region (members pF ! j) = Some None)"
    proof (intro allI impI)
      fix rows
      assume "member_rows env lo hi b feature_types where_feature (drop (Suc k) (members p)) = Inr rows"
      with dd have "member_rows env lo hi b feature_types where_feature (drop (Suc k) (members p')) = Inr rows"
        by simp
      from s[rule_format, OF this] have s': "do_rc pF = Some b" "length (members pF) = n"
        "\<forall>j<Suc k. members pF ! j = members p' ! j"
        "\<forall>j. Suc k \<le> j \<and> j < n
                            \<and> member_resolve env lo hi (members p' ! j) = Inl IndexError
                          \<longrightarrow> cached_Region (members pF ! j) = Some None"
        by blast+
      from s'(3) f(6) have a1: "\<forall>j<k. members pF ! j = members p ! j" by auto
      from s'(3) have a2: "members pF ! k = members p' ! k" by simp
      from s'(4) f(6) have a3: "\<forall>j. Suc k \<le> j \<and> j < n
                            \<and> member_resolve env lo hi (members p ! j) = Inl IndexError
                          \<longrightarrow> cached_Region (members pF ! j) = Some None" by auto
      from s'(1,2) a1 a2 a3
      show "do_rc pF = Some b \<and> length (members pF) = n
                     \<and> (\<forall>j<k. members pF ! j = members p ! j)
                     \<and> members pF ! k = members p' ! k
                     \<and> (\<forall>j. Suc k \<le> j \<and> j < n
                            \<and> member_resolve env lo hi (members p ! j) = Inl IndexError
                          \<longrightarrow> cached_Region (members pF ! j) = Some None)"
        by simp
    qed
    with r dd show ?thesis by auto
  qed
  show ?case
  proof (cases "member_resolve env lo hi (members p ! k)")
    case (Inl e)
    show ?thesis
    proof (cases "e = IndexError")
      case True
      from st Inl True obtain p' where
        l: "alignment_loop env p (k # [Suc k..<n]) feature_types where_feature seqs =
            alignment_loop env p' [Suc k..<n] feature_types where_feature seqs"
        and d: "differ_at p p' k" and c: "cached_Region (members p' ! k) = Some None"
        by auto
      from cont[OF d, where seqs' = seqs] obtain pF where
        r: "alignment_loop env p' [Suc k..<n] feature_types where_feature seqs =
               ((case member_rows env lo hi b feature_types where_feature (drop (Suc k) (members p)) of
                   Inl e \<Rightarrow> Inl e
                 | Inr rows \<Rightarrow> Inr (seqs @ rows)), pF)"
        and s: "\<forall>rows. member_rows env lo hi b feature_types where_feature (drop (Suc k) (members p)) = Inr rows
                 \<longrightarrow> do_rc pF = Some b \<and> length (members pF) = n
                     \<and> (\<forall>j<k. members pF ! j = members p ! j)
                     \<and> members pF ! k = members p' ! k
                     \<and> (\<forall>j. Suc k \<le> j \<and> j < n
                            \<and> member_resolve env lo hi (members p ! j) = Inl IndexError
                          \<longrightarrow> cached_Region (members pF ! j) = Some None)"
        by auto
      have mr: "member_rows env lo hi b feature_types where_feature (drop k (members p)) =
                member_rows env lo hi b feature_types where_feature (drop (Suc k) (members p))"
        using Inl True by (simp add: dr)
      have "\<forall>rows. member_rows env lo hi b feature_types where_feature (drop k (members p)) = Inr rows
                 \<longrightarrow> do_rc pF = Some b \<and> length (members pF) = n
                     \<and> (\<forall>j<k. members pF ! j = members p ! j)
                     \<and> (\<forall>j. k \<le> j \<and> j < n
                            \<and> member_resolve env lo hi (members p ! j) = Inl IndexError
                          \<longrightarrow> cached_Region (members pF ! j) = Some None)"
      proof (intro allI impI)
        fix rows
        assume "member_rows env lo hi b feature_types where_feature (drop k (members p)) = Inr rows"
        with mr have "member_rows env lo hi b feature_types where_feature (drop (Suc k) (members p)) = Inr rows"
          by simp
        from s[rule_format, OF this] have s': "do_rc pF = Some b" "length (members pF) = n"
          "\<forall>j<k. members pF ! j = members p ! j" "members pF ! k = members p' ! k"
          "\<forall>j. Suc k \<le> j \<and> j < n
                            \<and> member_resolve env lo hi (members p ! j) = Inl IndexError
                          \<longrightarrow> cached_Region (members pF ! j) = Some None"
          by blast+
        have "cached_Region (members pF ! j) = Some None"
          if "k \<le> j \<and> j < n \<and> member_resolve env lo hi (members p ! j) = Inl IndexError" for j
        proof (cases "j = k")
          case True
          with s'(4) c show ?thesis by simp
        next
          case False
          with that have "Suc k \<le> j" by simp
          with that s'(5) show ?thesis by simp
        qed
        with s'(1,2,3)
        show "do_rc pF = Some b \<and> length (members pF) = n
                     \<and> (\<forall>j<k. members pF ! j = members p ! j)
                     \<and> (\<forall>j. k \<le> j \<and> j < n
                            \<and> member_resolve env lo hi (members p ! j) = Inl IndexError
                          \<longrightarrow> cached_Region (members pF ! j) = Some None)"
          by simp
      qed
      with l r mr up show ?thesis by auto
    next
      case False
      from st Inl False
      have "fst (alignment_loop env p (k # [Suc k..<n]) feature_types where_feature seqs) = Inl e"
        by simp
      then obtain pF where
        "alignment_loop env p (k # [Suc k..<n]) feature_types where_feature seqs = (Inl e, pF)"
        by (cases "alignment_loop env p (k # [Suc k..<n]) feature_types where_feature seqs") simp
      moreover have "member_rows env lo hi b feature_types where_feature (drop k (members p)) = Inl e"
        using Inl False by (simp add: dr)
      ultimately show ?thesis using up by auto
    qed
  next
    case (Inr r)
    obtain am l region where r: "r = (am, l, region)" by (cases r)
    note mres = Inr[unfolded r]
    show ?thesis
    proof (cases "region_seq env region feature_types where_feature")
      case (Inl e)
      from st mres Inl
      have "fst (alignment_loop env p (k # [Suc k..<n]) feature_types where_feature seqs) = Inl e"
        by simp
      then obtain pF where
        "alignment_loop env p (k # [Suc k..<n]) feature_types where_feature seqs = (Inl e, pF)"
        by (cases "alignment_loop env p (k # [Suc k..<n]) feature_types where_feature seqs") simp
      moreover have "member_rows env lo hi b feature_types where_feature (drop k (members p)) = Inl e"
        using mres Inl by (simp add: dr)
      ultimately show ?thesis using up by auto
    next
      case (Inr seq)
      from st mres Inr obtain p' where
        l: "alignment_loop env p (k # [Suc k..<n]) feature_types where_feature seqs =
            alignment_loop env p' [Suc k..<n] feature_types where_feature
              (seqs @ [row_of env b am region seq])"
        and d: "differ_at p p' k"
        by auto
      from cont[OF d, where seqs' = "seqs @ [row_of env b am region seq]"] obtain pF where
        rr: "alignment_loop env p' [Suc k..<n] feature_types where_feature
               (seqs @ [row_of env b am region seq]) =
               ((case member_rows env lo hi b feature_types where_feature (drop (Suc k) (members p)) of
                   Inl e \<Rightarrow> Inl e
                 | Inr rows \<Rightarrow> Inr ((seqs @ [row_of env b am region seq]) @ rows)), pF)"
        and s: "\<forall>rows. member_rows env lo hi b feature_types where_feature (drop (Suc k) (members p)) = Inr rows
                 \<longrightarrow> do_rc pF = Some b \<and> length (members pF) = n
                     \<and> (\<forall>j<k. members pF ! j = members p ! j)
                     \<and> members pF ! k = members p' ! k
                     \<and> (\<forall>j. Suc k \<le> j \<and> j < n
                            \<and> member_resolve env lo hi (members p ! j) = Inl IndexError
                          \<longrightarrow> cached_Region (members pF ! j) = Some None)"
        by auto
      show ?thesis
      proof (cases "member_rows env lo hi b feature_types where_feature (drop (Suc k) (members p))")
        case (Inl e)
        then have "member_rows env lo hi b feature_types where_feature (drop k (members p)) = Inl e"
          using mres Inr by (simp add: dr)
        with l rr Inl up show ?thesis by auto
      next
        case (Inr rows')
        then have mr: "member_rows env lo hi b feature_types where_feature (drop k (members p)) =
                       Inr (row_of env b am region seq # rows')"
          using mres \<open>region_seq env region feature_types where_feature = Inr seq\<close>
          by (simp add: dr)
        from s[rule_format, OF Inr] have s': "do_rc pF = Some b" "length (members pF) = n"
          "\<forall>j<k. members pF ! j = members p ! j"
          "\<forall>j. Suc k \<le> j \<and> j < n
                            \<and> member_resolve env lo hi (members p ! j) = Inl IndexError
                          \<longrightarrow> cached_Region (members pF ! j) = Some None"
          by blast+
        have "cached_Region (members pF ! j) = Some None"
          if "k \<le> j \<and> j < n \<and> member_resolve env lo hi (members p ! j) = Inl IndexError" for j
        proof (cases "j = k")
          case True
          with that mres show ?thesis by simp
        next
          case False
          with that have "Suc k \<le> j" by simp
          with that s'(4) show ?thesis by simp
        qed
        with s'(1,2,3) l rr Inr mr up show ?thesis by auto
      qed
    qed
  qed
qed

subsection \<open>The alignment of a new block\<close>

lemma fresh_blockD:
  assumes "fresh_block p"
  shows "0 < length (members p)" and "am_ref_member (members p ! 0)"
    and "aln_map (members p ! 0) = None" and "aln_loc (members p ! 0) = None"
    and "\<exists>r. cached_Region (members p ! 0) = Some (Some r)"
    and "cached_AlignedSeq (members p ! 0) = None"
    and "cached_CigarStart p = None" and "cached_CigarEnd p = None" and "do_rc p = None"
    and "\<forall>j. 1 \<le> j \<and> j < length (members p) \<longrightarrow> fresh_member (members p ! j)"
proof -
  from assms obtain r ms where m: "members p = r # ms" and r: "fresh_ref_member r"
    and ms: "list_all fresh_member ms" and c: "cached_CigarStart p = None"
    "cached_CigarEnd p = None" "do_rc p = None"
    by (auto simp: fresh_block_def split: list.splits)
  show "0 < length (members p)" using m by simp
  show "am_ref_member (members p ! 0)" "aln_map (members p ! 0) = None"
    "aln_loc (members p ! 0) = None" "cached_AlignedSeq (members p ! 0) = None"
    using m r by (simp_all add: fresh_ref_member_def)
  show "\<exists>r. cached_Region (members p ! 0) = Some (Some r)"
    using m r by (auto simp: fresh_ref_member_def split: option.splits)
  show "cached_CigarStart p = None" "cached_CigarEnd p = None" "do_rc p = None" by (rule c)+
  show "\<forall>j. 1 \<le> j \<and> j < length (members p) \<longrightarrow> fresh_member (members p ! j)"
  proof (intro allI impI)
    fix j assume j: "1 \<le> j \<and> j < length (members p)"
    then obtain j' where j': "j = Suc j'" by (cases j) auto
    with j m have "j' < length ms" by simp
    with ms have "fresh_member (ms ! j')" by (simp add: list_all_length)
    with m j' show "fresh_member (members p ! j)" by simp
  qed
qed

lemma get_alignment_rows:
  assumes fb: "fresh_block p"
    and res: "ref_resolve env (ref_location p) (members p ! 0) = Inr (m, lo # hi # rest, region)"
    and sq: "region_seq env region feature_types where_feature = Inr seq"
  shows "\<exists>pF. get_alignment env p feature_types where_feature omit_redundant =
           ((case member_rows env lo hi (strand (ref_location p) \<noteq> strand (location region))
                   feature_types where_feature (tl (members p)) of
               Inl e \<Rightarrow> Inl e
             | Inr rows \<Rightarrow>
                 (case Alignment env
                         (row_of env (strand (ref_location p) \<noteq> strand (location region))
                            m region seq # rows) of
                    Inl e \<Rightarrow> Inl e
                  | Inr aln \<Rightarrow>
                      Inr (oriented (strand (ref_location p) \<noteq> strand (location region))
                             omit_redundant aln))), pF)
         \<and> (\<forall>rows. member_rows env lo hi (strand (ref_location p) \<noteq> strand (location region))
                      feature_types where_feature (tl (members p)) = Inr rows
               \<longrightarrow> do_rc pF = Some (strand (ref_location p) \<noteq> strand (location region))
                   \<and> (\<forall>j. 1 \<le> j \<and> j < length (members p)
                          \<and> member_resolve env lo hi (members p ! j) = Inl IndexError
                        \<longrightarrow> cached_Region (members pF ! j) = Some None))"
proof -
  define b where "b = (strand (ref_location p) \<noteq> strand (location region))"
  define n where "n = length (members p)"
  note f = fresh_blockD[OF fb]
  from f(5) obtain region_init where init: "cached_Region (members p ! 0) = Some (Some region_init)"
    by blast
  from f(1) have up: "[0..<length (members p)] = 0 # [1..<n]" by (simp add: upt_rec n_def)
  let ?row0 = "row_of env b m region seq"
  from loop_ref_step[OF f(1) f(2) f(3) init f(6) f(9) res sq, where js = "[1..<n]" and seqs = "[]"]
  obtain p1 where
    l1: "alignment_loop env p (0 # [1..<n]) feature_types where_feature [] =
         alignment_loop env p1 [1..<n] feature_types where_feature [?row0]"
    and d1: "differ_at (p\<lparr>cached_CigarStart := Some lo, cached_CigarEnd := Some hi,
                          do_rc := Some b\<rparr>) p1 0"
    unfolding b_def by auto
  note g = differ_at_fields[OF d1]
  have len1: "length (members p1) = n" using g(5) by (simp add: n_def)
  have c1: "cached_CigarStart p1 = Some lo" "cached_CigarEnd p1 = Some hi" "do_rc p1 = Some b"
    using g(2,3,4) by simp_all
  have same: "members p1 ! j = members p ! j" if "1 \<le> j" for j
    using g(6)[of j] that by simp
  have fr1: "\<forall>j. 1 \<le> j \<and> j < n \<longrightarrow> fresh_member (members p1 ! j)"
    using f(10) same by (simp add: n_def)
  have dr: "drop 1 (members p1) = tl (members p)"
    using differ_at_drop[OF d1] by (simp add: drop_Suc)
  from loop_members[OF refl len1 c1 fr1, where env = env
      and feature_types = feature_types and where_feature = where_feature and seqs = "[?row0]"]
  obtain pF where
    l2: "alignment_loop env p1 [1..<n] feature_types where_feature [?row0] =
               ((case member_rows env lo hi b feature_types where_feature (tl (members p)) of
                   Inl e \<Rightarrow> Inl e
                 | Inr rows \<Rightarrow> Inr ([?row0] @ rows)), pF)"
    and s2: "\<forall>rows. member_rows env lo hi b feature_types where_feature (tl (members p)) = Inr rows
                 \<longrightarrow> do_rc pF = Some b \<and> length (members pF) = n
                     \<and> (\<forall>j<1. members pF ! j = members p1 ! j)
                     \<and> (\<forall>j. 1 \<le> j \<and> j < n
                            \<and> member_resolve env lo hi (members p1 ! j) = Inl IndexError
                          \<longrightarrow> cached_Region (members pF ! j) = Some None)"
    unfolding dr by blast
  show ?thesis
  proof (cases "member_rows env lo hi b feature_types where_feature (tl (members p))")
    case (Inl e)
    with l1 l2 up have "get_alignment env p feature_types where_feature omit_redundant = (Inl e, pF)"
      by (simp add: get_alignment_def)
    with Inl show ?thesis unfolding b_def by simp
  next
    case (Inr rows)
    from s2[rule_format, OF Inr] have rcF: "do_rc pF = Some b"
      and dropped: "\<forall>j. 1 \<le> j \<and> j < n
                            \<and> member_resolve env lo hi (members p1 ! j) = Inl IndexError
                          \<longrightarrow> cached_Region (members pF ! j) = Some None"
      by blast+
    have dropped': "\<forall>j. 1 \<le> j \<and> j < length (members p)
                          \<and> member_resolve env lo hi (members p ! j) = Inl IndexError
                        \<longrightarrow> cached_Region (members pF ! j) = Some None"
      using dropped same by (simp add: n_def)
    have "get_alignment env p feature_types where_feature omit_redundant =
           ((case Alignment env (?row0 # rows) of
                    Inl e \<Rightarrow> Inl e
                  | Inr aln \<Rightarrow> Inr (oriented b omit_redundant aln)), pF)"
      using l1 l2 up Inr
      by (simp add: get_alignment_def get_rc_state_cached[OF rcF] oriented_def Let_def
            split: sum.splits)
    with Inr dropped' rcF show ?thesis unfolding b_def by simp
  qed
qed

lemma SyntenicRegion_init_fresh:
  "SyntenicRegion_init env g ids False None = Inr m \<Longrightarrow> fresh_member m"
  "SyntenicRegion_init env g ids True (Some loc) = Inr m \<Longrightarrow> fresh_ref_member m"
  by (auto simp: SyntenicRegion_init_def fresh_member_def fresh_ref_member_def Let_def
      split: sum.splits)

lemma init_loop_fresh:
  assumes "init_loop env rl ms r mems = Inr (r', mems')"
    and "case r of None \<Rightarrow> True | Some m \<Rightarrow> fresh_ref_member m"
    and "list_all fresh_member mems"
  shows "(case r' of None \<Rightarrow> True | Some m \<Rightarrow> fresh_ref_member m) \<and> list_all fresh_member mems'"
  using assms
proof (induction ms arbitrary: r mems)
  case Nil
  then show ?case by simp
next
  case (Cons a ms)
  obtain g ids where a: "a = (g, ids)" by (cases a)
  show ?case
  proof (cases "g = genome rl")
    case True
    with Cons.prems(1) a obtain m where
      m: "SyntenicRegion_init env g ids True (Some rl) = Inr m"
      and l: "init_loop env rl ms (Some m) mems = Inr (r', mems')"
      by (auto split: sum.splits)
    from SyntenicRegion_init_fresh(2)[OF m] have "fresh_ref_member m" .
    with Cons.IH[OF l _ Cons.prems(3)] show ?thesis by simp
  next
    case False
    with Cons.prems(1) a obtain m where
      m: "SyntenicRegion_init env g ids False None = Inr m"
      and l: "init_loop env rl ms r (mems @ [m]) = Inr (r', mems')"
      by (auto split: sum.splits)
    from SyntenicRegion_init_fresh(1)[OF m] Cons.prems(3)
    have "list_all fresh_member (mems @ [m])" by simp
    from Cons.IH[OF l Cons.prems(2) this] show ?thesis .
  qed
qed

lemma SyntenicRegions_init_fresh:
  assumes "SyntenicRegions_init env ms rl = Inr p"
  shows "fresh_block p" and "ref_location p = rl"
proof -
  from assms obtain r mems where l: "init_loop env rl ms None [] = Inr (Some r, mems)"
    and p: "p = \<lparr>ref_location = rl, members = r # mems, cached_CigarStart = None,
                 cached_CigarEnd = None, do_rc = None\<rparr>"
    by (auto simp: SyntenicRegions_init_def split: sum.splits option.splits)
  from init_loop_fresh[OF l] have "fresh_ref_member r" "list_all fresh_member mems" by simp_all
  with p show "fresh_block p" by (simp add: fresh_block_def)
  from p show "ref_location p = rl" by simp
qed

lemma member_parts_resolved:
  "member_parts env lo hi feature_types where_feature ms = Inr parts \<Longrightarrow>
   list_all2 (\<lambda>mem (am, r, s). \<exists>l. member_resolve env lo hi mem = Inr (am, l, r)
                \<and> region_seq env r feature_types where_feature = Inr s)
     (filter (\<lambda>mem. member_resolve env lo hi mem \<noteq> Inl IndexError) ms) parts"
proof (induction ms arbitrary: parts)
  case Nil
  then show ?case by simp
next
  case (Cons m ms)
  show ?case
  proof (cases "member_resolve env lo hi m")
    case (Inl e)
    with Cons.prems have e: "e = IndexError"
      and r: "member_parts env lo hi feature_types where_feature ms = Inr parts"
      by (auto split: if_splits)
    from Cons.IH[OF r] Inl e show ?thesis by simp
  next
    case (Inr x)
    obtain am l r where x: "x = (am, l, r)" by (cases x)
    from Cons.prems Inr x obtain s parts' where
      s: "region_seq env r feature_types where_feature = Inr s"
      and r': "member_parts env lo hi feature_types where_feature ms = Inr parts'"
      and p: "parts = (am, r, s) # parts'"
      by (auto split: sum.splits)
    from Cons.IH[OF r'] Inr x s p show ?thesis by simp
  qed
qed

lemma Alignment_lengths:
  assumes "Alignment env seqs = Inr aln"
  shows "length aln = length seqs" and "\<forall>row \<in> set aln. length (snd row) = length (snd (hd aln))"
proof -
  let ?rows = "map (\<lambda>(name, seq). (name, gapped env (amap seq) (seq_str (data seq)))) seqs"
  show "length aln = length seqs"
    using assms by (auto simp: Alignment_def Let_def split: list.splits if_splits)
  show "\<forall>row \<in> set aln. length (snd row) = length (snd (hd aln))"
  proof (cases ?rows)
    case Nil
    with assms show ?thesis by (simp add: Alignment_def Let_def)
  next
    case (Cons row rest)
    with assms have "aln = row # rest" "list_all (\<lambda>r. length (snd r) = length (snd row)) rest"
      by (auto simp: Alignment_def Let_def split: if_splits)
    then show ?thesis by (auto simp: list_all_iff)
  qed
qed

lemma length_rc: "length (rc s) = length s"
  by (simp add: rc_def)

lemma filtered_columns:
  "columns (filtered f aln) = filter f (columns aln)"
  "map fst (filtered f aln) = map fst aln"
  "\<forall>row \<in> set (filtered f aln). length (snd row) = length (columns (filtered f aln))"
proof -
  show "map fst (filtered f aln) = map fst aln"
    by (cases aln) (auto simp: filtered_def Let_def)
  show c: "columns (filtered f aln) = filter f (columns aln)"
  proof (cases aln)
    case Nil
    then show ?thesis by (simp add: filtered_def columns_def)
  next
    case (Cons row rest)
    define col where "col = (\<lambda>j. map (\<lambda>(name, s). s ! j) aln)"
    define keep where "keep = filter (\<lambda>j. f (col j)) [0..<length (snd row)]"
    have fl: "filtered f aln = map (\<lambda>(name, s). (name, map (\<lambda>j. s ! j) keep)) aln"
      using Cons by (simp add: filtered_def keep_def col_def Let_def)
    obtain nm s0 where row: "row = (nm, s0)" by (cases row)
    have cf: "columns (filtered f aln) =
              map (\<lambda>j'. map (\<lambda>(name, s). s ! j') (filtered f aln)) [0..<length keep]"
      unfolding fl using Cons row by (simp add: columns_def)
    have "map (\<lambda>(name, s). s ! j') (filtered f aln) = col (keep ! j')" if "j' < length keep" for j'
      unfolding fl col_def using that by (simp add: case_prod_unfold comp_def)
    then have "columns (filtered f aln) = map (\<lambda>j'. col (keep ! j')) [0..<length keep]"
      unfolding cf by simp
    also have "\<dots> = map col (map (\<lambda>j'. keep ! j') [0..<length keep])"
      by (simp only: map_map comp_def)
    also have "\<dots> = map col keep"
      by (simp only: map_nth)
    also have "\<dots> = filter f (map col [0..<length (snd row)])"
      by (simp add: keep_def filter_map comp_def)
    also have "\<dots> = filter f (columns aln)"
      using Cons by (simp add: columns_def col_def)
    finally show ?thesis .
  qed
  show "\<forall>row \<in> set (filtered f aln). length (snd row) = length (columns (filtered f aln))"
  proof (cases aln)
    case Nil
    then show ?thesis by (simp add: filtered_def)
  next
    case (Cons row rest)
    define keep where "keep = filter (\<lambda>j. f (map (\<lambda>(name, s). s ! j) aln)) [0..<length (snd row)]"
    have fl: "filtered f aln = map (\<lambda>(name, s). (name, map (\<lambda>j. s ! j) keep)) aln"
      using Cons by (simp add: filtered_def keep_def Let_def)
    obtain nm s0 where row: "row = (nm, s0)" by (cases row)
    have "length (columns (filtered f aln)) = length keep"
      unfolding fl using Cons row by (simp add: columns_def)
    moreover have "\<forall>r \<in> set (filtered f aln). length (snd r) = length keep"
      unfolding fl by auto
    ultimately show ?thesis by simp
  qed
qed

subsection \<open>The slices of the reference and of the other members\<close>

lemma try_after_slice:
  assumes cs: "CigarStart env p = (Inr lo, p1)" and ce: "CigarEnd env p1 = (Inr hi, p1)"
    and cl: "cigar_line env (genomic_align_id (members p ! i)) = Inr cl"
    and sc: "slice_cigar env cl lo hi True = Inr (am, l)"
  shows "\<exists>r. make_map_from_ref_try env p i =
           (r, p1\<lparr>members := (members p1)
                   [i := (members p1 ! i)\<lparr>aln_map := Some am, aln_loc := Some l\<rparr>]\<rparr>)"
  by (simp add: make_map_from_ref_try_def cs ce cl sc Let_def split: sum.splits list.splits)

lemma make_map_from_ref_after_slice:
  assumes i: "i < length (members p1)"
    and cs: "CigarStart env p = (Inr lo, p1)" and ce: "CigarEnd env p1 = (Inr hi, p1)"
    and cl: "cigar_line env (genomic_align_id (members p ! i)) = Inr cl"
    and sc: "slice_cigar env cl lo hi True = Inr (am, l)"
    and fresh: "aln_loc (members p ! i) = None"
  shows "\<exists>r x. make_map_from_ref env p i = (r, p1\<lparr>members := (members p1)[i := x]\<rparr>)
           \<and> aln_map x = Some am \<and> aln_loc x = Some l"
proof -
  let ?x = "(members p1 ! i)\<lparr>aln_map := Some am, aln_loc := Some l\<rparr>"
  let ?p3 = "p1\<lparr>members := (members p1)[i := ?x]\<rparr>"
  from try_after_slice[OF cs ce cl sc] obtain r where
    t: "make_map_from_ref_try env p i = (r, ?p3)" by blast
  show ?thesis
  proof (cases r)
    case (Inr region)
    have "make_map_from_ref env p i =
          (Inr (), p1\<lparr>members := (members p1)[i := ?x\<lparr>cached_Region := Some (Some region)\<rparr>]\<rparr>)"
      using fresh t Inr i by (simp add: make_map_from_ref_def Let_def)
    then show ?thesis by (intro exI conjI) (assumption, simp_all)
  next
    case (Inl e)
    show ?thesis
    proof (cases "e = IndexError")
      case True
      have "make_map_from_ref env p i =
            (Inr (), p1\<lparr>members := (members p1)[i := ?x\<lparr>cached_Region := Some None\<rparr>]\<rparr>)"
        using fresh t Inl True i by (simp add: make_map_from_ref_def Let_def)
      then show ?thesis by (intro exI conjI) (assumption, simp_all)
    next
      case False
      have "make_map_from_ref env p i = (Inl e, ?p3)"
        using fresh t Inl False by (cases e) (simp_all add: make_map_from_ref_def Let_def)
      then show ?thesis by (intro exI conjI) (assumption, simp_all)
    qed
  qed
qed

text \<open>
  C6. In a new block, the first request for the map of another member slices the
  operator string of the reference member by sequence offsets (\<open>by_align = False\<close>),
  from \<open>relative_start\<close> over the length of the reference location, where
  \<open>relative_start\<close> is the offset of the reference location in the block, or the
  length of the block minus the end of that offset range when the block is not on
  strand 1. The two column bounds that slice reports are cached as \<open>CigarStart\<close> and
  \<open>CigarEnd\<close>, and the operator string of the other member is sliced by alignment
  columns (\<open>by_align = True\<close>) with exactly these bounds.
\<close>

theorem syntenic_slices:
  assumes fb: "fresh_block p" and i: "1 \<le> i" "i < length (members p)"
    and bl: "make_location env (sr_genome (members p ! 0)) (cached_name (members p ! 0))
               (dnafrag_start (members p ! 0)) (dnafrag_end (members p ! 0))
               (dnafrag_strand (members p ! 0)) = Inr block_loc"
    and rs: "relative_start =
               (if strand block_loc \<noteq> 1
                then len block_loc
                     - (start (ref_location p) - start block_loc + len (ref_location p))
                else start (ref_location p) - start block_loc)"
    and cl0: "cigar_line env (genomic_align_id (members p ! 0)) = Inr ref_cigar"
    and s0: "slice_cigar env ref_cigar relative_start (relative_start + len (ref_location p)) False =
               Inr (ref_map, [col_lo, col_hi])"
    and gr: "get_region env (sr_genome (members p ! 0))
               ((ref_location p)\<lparr>strand := strand block_loc\<rparr>) = Inr region"
    and cli: "cigar_line env (genomic_align_id (members p ! i)) = Inr member_cigar"
    and si: "slice_cigar env member_cigar col_lo col_hi True = Inr (member_map, member_loc)"
  shows "\<exists>r p'. make_map_func env p i = (r, p')
           \<and> aln_map (members p' ! 0) = Some ref_map
           \<and> aln_loc (members p' ! 0) = Some [col_lo, col_hi]
           \<and> cached_CigarStart p' = Some col_lo \<and> cached_CigarEnd p' = Some col_hi
           \<and> aln_map (members p' ! i) = Some member_map
           \<and> aln_loc (members p' ! i) = Some member_loc"
proof -
  note f = fresh_blockD[OF fb]
  from f(10) i have fi: "fresh_member (members p ! i)" by simp
  have rsq: "relative_start = ref_start block_loc (ref_location p)"
    by (simp only: rs ref_start_def)
  have res: "ref_resolve env (ref_location p) (members p ! 0) = Inr (ref_map, [col_lo, col_hi], region)"
    by (simp add: ref_resolve_def bl cl0 s0[unfolded rsq] gr Let_def)
  let ?m0 = "(members p ! 0)\<lparr>aln_map := Some ref_map, aln_loc := Some [col_lo, col_hi],
                             cached_Region := Some (Some region)\<rparr>"
  let ?p1 = "p\<lparr>members := (members p)[0 := ?m0],
               cached_CigarStart := Some col_lo, cached_CigarEnd := Some col_hi\<rparr>"
  have pr: "populate_ref env p = (Inr (), ?p1)"
    by (rule populate_ref_fresh[OF f(1) f(3) res])
  have cs: "CigarStart env p = (Inr col_lo, ?p1)"
    using f(7) by (simp add: CigarStart_def pr)
  have ce: "CigarEnd env ?p1 = (Inr col_hi, ?p1)"
    by (simp add: CigarEnd_def)
  have i1: "i < length (members ?p1)" using i by simp
  from fi have fresh: "aln_loc (members p ! i) = None" "\<not> am_ref_member (members p ! i)"
    by (simp_all add: fresh_member_def)
  from make_map_from_ref_after_slice[OF i1 cs ce cli si fresh(1)]
  obtain r x where m: "make_map_from_ref env p i = (r, ?p1\<lparr>members := (members ?p1)[i := x]\<rparr>)"
    and x: "aln_map x = Some member_map" "aln_loc x = Some member_loc"
    by blast
  have mf: "make_map_func env p i = (r, ?p1\<lparr>members := (members ?p1)[i := x]\<rparr>)"
    using fresh(2) m by (simp add: make_map_func_def)
  let ?p' = "?p1\<lparr>members := (members ?p1)[i := x]\<rparr>"
  have "aln_map (members ?p' ! 0) = Some ref_map" "aln_loc (members ?p' ! 0) = Some [col_lo, col_hi]"
    "cached_CigarStart ?p' = Some col_lo" "cached_CigarEnd ?p' = Some col_hi"
    "aln_map (members ?p' ! i) = Some member_map" "aln_loc (members ?p' ! i) = Some member_loc"
    using i f(1) x by simp_all
  with mf show ?thesis by blast
qed

subsection \<open>Dropped members, orientation and redundant columns\<close>

lemma oriented_lengths:
  assumes "\<forall>row \<in> set aln. length (snd row) = length (snd (hd aln))"
  shows "length (oriented b omit aln) = length aln"
    and "\<forall>row \<in> set (oriented b omit aln). length (snd row) = length (snd (hd (oriented b omit aln)))"
proof -
  have rcl: "\<forall>row \<in> set (aln_rc aln). length (snd row) = length (snd (hd (aln_rc aln)))"
  proof (cases aln)
    case Nil
    then show ?thesis by (simp add: aln_rc_def)
  next
    case (Cons r rest)
    with assms show ?thesis by (auto simp: aln_rc_def length_rc case_prod_unfold)
  qed
  have fl: "\<forall>row \<in> set (filtered f a). length (snd row) = length (snd (hd (filtered f a)))" for f a
  proof (cases "filtered f a")
    case Nil
    then show ?thesis by simp
  next
    case (Cons r rest)
    with filtered_columns(3)[of f a] show ?thesis by simp
  qed
  have ll: "length (filtered f a) = length a" for f a
    using filtered_columns(2)[of f a] by (metis length_map)
  show "length (oriented b omit aln) = length aln"
    by (simp add: oriented_def Let_def ll aln_rc_def)
  show "\<forall>row \<in> set (oriented b omit aln). length (snd row) = length (snd (hd (oriented b omit aln)))"
    using assms rcl fl by (simp add: oriented_def Let_def)
qed

text \<open>
  C7, amended. In a new block whose reference member resolves, let every other member
  either resolve (its slice, its region and its sequence are returned) or fail with
  \<open>IndexError\<close> inside the \<^verbatim>\<open>try\<close> of \<^verbatim>\<open>_make_map_from_ref\<close>. Then
  \<^verbatim>\<open>get_alignment\<close> builds the alignment from the reference member and exactly the
  members that resolved, in order; a member that failed with \<open>IndexError\<close> has its
  region set to \<^verbatim>\<open>None\<close> and gives no row; and the rows of the alignment returned
  all have the same length.
\<close>

theorem syntenic_block_drops_index_error:
  assumes fb: "fresh_block p"
    and res: "ref_resolve env (ref_location p) (members p ! 0) = Inr (m, lo # hi # rest, region)"
    and sq: "region_seq env region feature_types where_feature = Inr seq"
    and mp: "member_parts env lo hi feature_types where_feature (tl (members p)) = Inr parts"
  shows "(\<exists>pF. get_alignment env p feature_types where_feature omit_redundant =
            ((case Alignment env
                     (map (\<lambda>(am, r, s).
                             row_of env (strand (ref_location p) \<noteq> strand (location region)) am r s)
                        ((m, region, seq) # parts)) of
                 Inl e \<Rightarrow> Inl e
               | Inr aln \<Rightarrow>
                   Inr (oriented (strand (ref_location p) \<noteq> strand (location region))
                          omit_redundant aln)), pF)
          \<and> (\<forall>j. 1 \<le> j \<and> j < length (members p)
                   \<and> member_resolve env lo hi (members p ! j) = Inl IndexError
                 \<longrightarrow> cached_Region (members pF ! j) = Some None))
       \<and> list_all2 (\<lambda>mem (am, r, s). \<exists>l. member_resolve env lo hi mem = Inr (am, l, r)
                        \<and> region_seq env r feature_types where_feature = Inr s)
            (filter (\<lambda>mem. member_resolve env lo hi mem \<noteq> Inl IndexError) (tl (members p))) parts
       \<and> (\<forall>aln. fst (get_alignment env p feature_types where_feature omit_redundant) = Inr aln
                \<longrightarrow> length aln = Suc (length parts)
                    \<and> (\<forall>row \<in> set aln. length (snd row) = length (snd (hd aln))))"
proof -
  let ?b = "strand (ref_location p) \<noteq> strand (location region)"
  let ?rows = "map (\<lambda>(am, r, s). row_of env ?b am r s) parts"
  have mr: "member_rows env lo hi ?b feature_types where_feature (tl (members p)) = Inr ?rows"
    using mp by (simp add: member_rows_def)
  from get_alignment_rows[OF fb res sq, where omit_redundant = omit_redundant] mr
  obtain pF where
    g: "get_alignment env p feature_types where_feature omit_redundant =
            ((case Alignment env (row_of env ?b m region seq # ?rows) of
                 Inl e \<Rightarrow> Inl e
               | Inr aln \<Rightarrow> Inr (oriented ?b omit_redundant aln)), pF)"
    and d: "\<forall>j. 1 \<le> j \<and> j < length (members p)
                   \<and> member_resolve env lo hi (members p ! j) = Inl IndexError
                 \<longrightarrow> cached_Region (members pF ! j) = Some None"
    by auto
  have l: "\<forall>aln. fst (get_alignment env p feature_types where_feature omit_redundant) = Inr aln
                \<longrightarrow> length aln = Suc (length parts)
                    \<and> (\<forall>row \<in> set aln. length (snd row) = length (snd (hd aln)))"
  proof (intro allI impI)
    fix aln
    assume a: "fst (get_alignment env p feature_types where_feature omit_redundant) = Inr aln"
    with g obtain aln0 where a0: "Alignment env (row_of env ?b m region seq # ?rows) = Inr aln0"
      and al: "aln = oriented ?b omit_redundant aln0"
      by (auto split: sum.splits)
    note al0 = Alignment_lengths[OF a0]
    from oriented_lengths[OF al0(2), of ?b omit_redundant] al al0(1)
    show "length aln = Suc (length parts)
           \<and> (\<forall>row \<in> set aln. length (snd row) = length (snd (hd aln)))"
      by simp
  qed
  from g d have "\<exists>pF. get_alignment env p feature_types where_feature omit_redundant =
            ((case Alignment env
                     (map (\<lambda>(am, r, s). row_of env ?b am r s) ((m, region, seq) # parts)) of
                 Inl e \<Rightarrow> Inl e
               | Inr aln \<Rightarrow> Inr (oriented ?b omit_redundant aln)), pF)
          \<and> (\<forall>j. 1 \<le> j \<and> j < length (members p)
                   \<and> member_resolve env lo hi (members p ! j) = Inl IndexError
                 \<longrightarrow> cached_Region (members pF ! j) = Some None)"
    by auto
  with member_parts_resolved[OF mp] l show ?thesis by blast
qed

text \<open>
  C8. Under the same conditions, let the flag be that the strand of the reference
  location differs from the strand of the region the reference member resolved to.
  When it holds, every retained member is named by its location with the strand
  multiplied by -1 and the alignment is reverse-complemented as a whole; when it does
  not, every member keeps the name of its sequence and the alignment is left as built.
  The flag is what \<^verbatim>\<open>_do_rc\<close> holds after the call.
\<close>

theorem syntenic_block_orientation:
  assumes fb: "fresh_block p"
    and res: "ref_resolve env (ref_location p) (members p ! 0) = Inr (m, lo # hi # rest, region)"
    and sq: "region_seq env region feature_types where_feature = Inr seq"
    and mp: "member_parts env lo hi feature_types where_feature (tl (members p)) = Inr parts"
  shows "\<exists>pF. get_alignment env p feature_types where_feature omit_redundant =
            ((case Alignment env
                     (map (\<lambda>(am, r, s).
                             if strand (ref_location p) \<noteq> strand (location region)
                             then (loc_str env ((location r)\<lparr>strand := strand (location r) * - 1\<rparr>),
                                   \<lparr>amap = am,
                                    data = s\<lparr>seq_name :=
                                      loc_str env ((location r)\<lparr>strand := strand (location r) * - 1\<rparr>)\<rparr>\<rparr>)
                             else (seq_name s, \<lparr>amap = am, data = s\<rparr>))
                        ((m, region, seq) # parts)) of
                 Inl e \<Rightarrow> Inl e
               | Inr aln \<Rightarrow>
                   Inr (let aln1 = (if strand (ref_location p) \<noteq> strand (location region)
                                    then aln_rc aln else aln)
                        in if omit_redundant then filtered not_gap_only aln1 else aln1)), pF)
          \<and> do_rc pF = Some (strand (ref_location p) \<noteq> strand (location region))"
proof -
  let ?b = "strand (ref_location p) \<noteq> strand (location region)"
  let ?rows = "map (\<lambda>(am, r, s). row_of env ?b am r s) parts"
  have mr: "member_rows env lo hi ?b feature_types where_feature (tl (members p)) = Inr ?rows"
    using mp by (simp add: member_rows_def)
  from get_alignment_rows[OF fb res sq, where omit_redundant = omit_redundant] mr
  obtain pF where
    g: "get_alignment env p feature_types where_feature omit_redundant =
            ((case Alignment env (row_of env ?b m region seq # ?rows) of
                 Inl e \<Rightarrow> Inl e
               | Inr aln \<Rightarrow> Inr (oriented ?b omit_redundant aln)), pF)"
    and d: "do_rc pF = Some ?b"
    by auto
  have r: "row_of env ?b am r s =
           (if ?b
            then (loc_str env ((location r)\<lparr>strand := strand (location r) * - 1\<rparr>),
                  \<lparr>amap = am,
                   data = s\<lparr>seq_name := loc_str env ((location r)\<lparr>strand := strand (location r) * - 1\<rparr>)\<rparr>\<rparr>)
            else (seq_name s, \<lparr>amap = am, data = s\<rparr>))" for am r s
    by (simp add: row_of_def Let_def)
  have "row_of env ?b m region seq # ?rows =
        map (\<lambda>(am, r, s).
               if ?b
               then (loc_str env ((location r)\<lparr>strand := strand (location r) * - 1\<rparr>),
                     \<lparr>amap = am,
                      data = s\<lparr>seq_name := loc_str env ((location r)\<lparr>strand := strand (location r) * - 1\<rparr>)\<rparr>\<rparr>)
               else (seq_name s, \<lparr>amap = am, data = s\<rparr>))
          ((m, region, seq) # parts)"
    by (simp only: r list.map prod.case)
  note g' = g[unfolded this oriented_def]
  from g' d show ?thesis by blast
qed

text \<open>
  C9. Whenever \<^verbatim>\<open>get_alignment\<close> returns an alignment without the filter, it
  returns with the filter the alignment of the same names whose columns are the
  columns of the former that are not gaps only, in their order; without the filter all
  columns are kept, the rows being as long as there are columns.
\<close>

theorem get_alignment_omit_redundant:
  assumes "get_alignment env p feature_types where_feature False = (Inr full, p')"
  shows "\<exists>kept. get_alignment env p feature_types where_feature True = (Inr kept, p')
           \<and> map fst kept = map fst full
           \<and> columns kept = filter not_gap_only (columns full)
           \<and> (\<forall>row \<in> set kept. length (snd row) = length (columns kept))
           \<and> (\<forall>row \<in> set full. length (snd row) = length (columns full))"
proof -
  from assms obtain seqs p1 aln rc' where
    l: "alignment_loop env p [0..<length (members p)] feature_types where_feature [] = (Inr seqs, p1)"
    and a: "Alignment env seqs = Inr aln"
    and r: "get_rc_state env p1 = (Inr rc', p')"
    and f: "full = (if rc' then aln_rc aln else aln)"
    by (auto simp: get_alignment_def Let_def split: sum.splits prod.splits)
  have t: "get_alignment env p feature_types where_feature True =
           (Inr (filtered not_gap_only full), p')"
    using l a r f by (simp add: get_alignment_def Let_def)
  note al = Alignment_lengths[OF a]
  from oriented_lengths(2)[OF al(2), of rc' False] f
  have fl: "\<forall>row \<in> set full. length (snd row) = length (snd (hd full))"
    by (simp add: oriented_def)
  have "\<forall>row \<in> set full. length (snd row) = length (columns full)"
  proof (cases full)
    case Nil
    then show ?thesis by simp
  next
    case (Cons r rest)
    with fl show ?thesis by (simp add: columns_def)
  qed
  with t filtered_columns[of not_gap_only full] show ?thesis by blast
qed

subsection \<open>Concrete runs on the small block\<close>

theorem syntenic_slices_witness:
  "fresh_block demo_block_rev
   \<and> (1::nat) < length (members demo_block_rev)
   \<and> strand (ref_location demo_block_rev) = - 1 \<and> len (ref_location demo_block_rev) = 2
   \<and> slice_cigar demo_compara ''MMDM'' 1 3 False = Inr ([True, False, True], [1, 4])
   \<and> slice_cigar demo_compara ''MMDM'' 1 4 True = Inr ([True, False, True], [1, 3])
   \<and> (\<exists>r p'. make_map_func demo_compara demo_block_rev 1 = (r, p')
         \<and> aln_loc (members p' ! 0) = Some [1, 4]
         \<and> cached_CigarStart p' = Some 1 \<and> cached_CigarEnd p' = Some 4
         \<and> aln_loc (members p' ! 1) = Some [1, 3])"
proof -
  let ?p = demo_block_rev
  let ?block = "\<lparr>genome = 0, coord_type = ''chromosome'', coord_name = ''h1'', start = 0,
                  end' = 3, strand = - 1\<rparr> :: string coordinate"
  let ?region = "\<lparr>location = \<lparr>genome = 0, coord_type = ''chromosome'', coord_name = ''h1'',
                   start = 0, end' = 2, strand = - 1\<rparr>\<rparr> :: string region"
  have fb: "fresh_block ?p" by code_simp
  have i1: "(1::nat) \<le> 1" by simp
  have i2: "(1::nat) < length (members ?p)" by code_simp
  have bl: "make_location demo_compara (sr_genome (members ?p ! 0)) (cached_name (members ?p ! 0))
               (dnafrag_start (members ?p ! 0)) (dnafrag_end (members ?p ! 0))
               (dnafrag_strand (members ?p ! 0)) = Inr ?block"
    by code_simp
  have rs: "(1::int) =
               (if strand ?block \<noteq> 1
                then len ?block - (start (ref_location ?p) - start ?block + len (ref_location ?p))
                else start (ref_location ?p) - start ?block)"
    by code_simp
  have cl0: "cigar_line demo_compara (genomic_align_id (members ?p ! 0)) = Inr ''MMDM''"
    by code_simp
  have s0: "slice_cigar demo_compara ''MMDM'' 1 (1 + len (ref_location ?p)) False =
               Inr ([True, False, True], [1, 4])"
    by code_simp
  have gr: "get_region demo_compara (sr_genome (members ?p ! 0))
               ((ref_location ?p)\<lparr>strand := strand ?block\<rparr>) = Inr ?region"
    by code_simp
  have cli: "cigar_line demo_compara (genomic_align_id (members ?p ! 1)) = Inr ''MMDM''"
    by code_simp
  have si: "slice_cigar demo_compara ''MMDM'' 1 4 True = Inr ([True, False, True], [1, 3])"
    by code_simp
  have a: "strand (ref_location ?p) = - 1" "len (ref_location ?p) = 2"
    "slice_cigar demo_compara ''MMDM'' 1 3 False = Inr ([True, False, True], [1, 4])"
    by code_simp+
  from syntenic_slices [OF fb i1 i2 bl rs cl0 s0 gr cli si]
  have "\<exists>r p'. make_map_func demo_compara ?p 1 = (r, p')
         \<and> aln_loc (members p' ! 0) = Some [1, 4]
         \<and> cached_CigarStart p' = Some 1 \<and> cached_CigarEnd p' = Some 4
         \<and> aln_loc (members p' ! 1) = Some [1, 3]"
    by blast
  with fb i2 a si show ?thesis by blast
qed

text \<open>
  C7, as stated, fails: a member whose resolution raises \<open>NoItemError\<close> is not
  dropped. In the block with a member of genome 3, whose region cannot be had, and in
  the block with a member of genome 4, whose sequence cannot be had, the exception
  leaves \<^verbatim>\<open>get_alignment\<close> and no block is produced.
\<close>

theorem syntenic_block_no_item_counterexample:
  "member_resolve demo_compara 0 4 (members (demo_block demo_members_lost 1) ! 1) = Inl NoItemError
   \<and> fst (get_alignment demo_compara (demo_block demo_members_lost 1) [] None True) =
       Inl NoItemError
   \<and> (case member_resolve demo_compara 0 4 (members (demo_block demo_members_unmapped 1) ! 1) of
         Inl e \<Rightarrow> Inl e
       | Inr (am, l, region) \<Rightarrow> region_seq demo_compara region [] None) = Inl NoItemError
   \<and> fst (get_alignment demo_compara (demo_block demo_members_unmapped 1) [] None True) =
       Inl NoItemError"
  by code_simp

theorem syntenic_block_drops_index_error_witness:
  "fresh_block (demo_block demo_members3 1)
   \<and> length (members (demo_block demo_members3 1)) = 3
   \<and> member_resolve demo_compara 0 4 (members (demo_block demo_members3 1) ! 1) = Inl IndexError
   \<and> length (filter (\<lambda>mem. member_resolve demo_compara 0 4 mem \<noteq> Inl IndexError)
               (tl (members (demo_block demo_members3 1)))) = 1
   \<and> fst (get_alignment demo_compara (demo_block demo_members3 1) [] None False) =
       Inr [(''h1:1'', ''AC-G''), (''m5:1'', ''TT-A'')]
   \<and> (\<exists>pF. snd (get_alignment demo_compara (demo_block demo_members3 1) [] None False) = pF
         \<and> cached_Region (members pF ! 1) = Some None)"
proof -
  let ?p = "demo_block demo_members3 1"
  let ?region = "\<lparr>location = \<lparr>genome = 0, coord_type = ''chromosome'', coord_name = ''h1'',
                   start = 0, end' = 3, strand = 1\<rparr>\<rparr> :: string region"
  let ?mouse = "\<lparr>location = \<lparr>genome = 1, coord_type = ''chromosome'', coord_name = ''m5'',
                   start = 0, end' = 3, strand = 1\<rparr>\<rparr> :: string region"
  have fb: "fresh_block ?p" by code_simp
  have res: "ref_resolve demo_compara (ref_location ?p) (members ?p ! 0) =
               Inr ([True, True, False, True], 0 # 4 # [], ?region)"
    by code_simp
  have sq: "region_seq demo_compara ?region [] None = Inr \<lparr>seq_name = ''h1:1'', seq_str = ''ACG''\<rparr>"
    by code_simp
  have mp: "member_parts demo_compara 0 4 [] None (tl (members ?p)) =
              Inr [([True, True, False, True], ?mouse, \<lparr>seq_name = ''m5:1'', seq_str = ''TTA''\<rparr>)]"
    by code_simp
  have a: "length (members ?p) = 3"
    "member_resolve demo_compara 0 4 (members ?p ! 1) = Inl IndexError"
    "length (filter (\<lambda>mem. member_resolve demo_compara 0 4 mem \<noteq> Inl IndexError)
               (tl (members ?p))) = 1"
    "fst (get_alignment demo_compara ?p [] None False) =
       Inr [(''h1:1'', ''AC-G''), (''m5:1'', ''TT-A'')]"
    by code_simp+
  from syntenic_block_drops_index_error [OF fb res sq mp, where omit_redundant = False]
  obtain pF where g: "snd (get_alignment demo_compara ?p [] None False) = pF"
    and d: "\<forall>j. 1 \<le> j \<and> j < length (members ?p)
                   \<and> member_resolve demo_compara 0 4 (members ?p ! j) = Inl IndexError
                 \<longrightarrow> cached_Region (members pF ! j) = Some None"
    by auto
  from d a(1,2) have "cached_Region (members pF ! 1) = Some None" by simp
  with g fb a show ?thesis by blast
qed

theorem syntenic_block_orientation_witness:
  "fresh_block (demo_block demo_members3 (- 1))
   \<and> strand (ref_location (demo_block demo_members3 (- 1))) = - 1
   \<and> fst (get_alignment demo_compara (demo_block demo_members3 (- 1)) [] None False) =
       Inr [(''h1:-1'', ''C-GT''), (''m5:-1'', ''T-AA'')]
   \<and> fst (get_alignment demo_compara (demo_block demo_members3 1) [] None False) =
       Inr [(''h1:1'', ''AC-G''), (''m5:1'', ''TT-A'')]
   \<and> do_rc (snd (get_alignment demo_compara (demo_block demo_members3 (- 1)) [] None False)) =
       Some True"
proof -
  let ?p = "demo_block demo_members3 (- 1)"
  let ?region = "\<lparr>location = \<lparr>genome = 0, coord_type = ''chromosome'', coord_name = ''h1'',
                   start = 0, end' = 3, strand = 1\<rparr>\<rparr> :: string region"
  let ?mouse = "\<lparr>location = \<lparr>genome = 1, coord_type = ''chromosome'', coord_name = ''m5'',
                   start = 0, end' = 3, strand = 1\<rparr>\<rparr> :: string region"
  have fb: "fresh_block ?p" by code_simp
  have res: "ref_resolve demo_compara (ref_location ?p) (members ?p ! 0) =
               Inr ([True, True, False, True], 0 # 4 # [], ?region)"
    by code_simp
  have sq: "region_seq demo_compara ?region [] None = Inr \<lparr>seq_name = ''h1:1'', seq_str = ''ACG''\<rparr>"
    by code_simp
  have mp: "member_parts demo_compara 0 4 [] None (tl (members ?p)) =
              Inr [([True, True, False, True], ?mouse, \<lparr>seq_name = ''m5:1'', seq_str = ''TTA''\<rparr>)]"
    by code_simp
  have a: "strand (ref_location ?p) = - 1"
    "fst (get_alignment demo_compara ?p [] None False) =
       Inr [(''h1:-1'', ''C-GT''), (''m5:-1'', ''T-AA'')]"
    "fst (get_alignment demo_compara (demo_block demo_members3 1) [] None False) =
       Inr [(''h1:1'', ''AC-G''), (''m5:1'', ''TT-A'')]"
    by code_simp+
  have b: "(strand (ref_location ?p) \<noteq> strand (location ?region)) = True"
    by code_simp
  from syntenic_block_orientation [OF fb res sq mp, where omit_redundant = False]
  obtain pF where g: "snd (get_alignment demo_compara ?p [] None False) = pF"
    and d: "do_rc pF = Some (strand (ref_location ?p) \<noteq> strand (location ?region))"
    by auto
  from d b have "do_rc pF = Some True" by simp
  with g fb a show ?thesis by simp
qed

theorem get_alignment_omit_redundant_witness:
  "fst (get_alignment demo_compara (demo_block demo_members2 1) [] None False) =
     Inr [(''h1:1'', ''AC-G''), (''m5:1'', ''TT-A'')]
   \<and> columns [(''h1:1'', ''AC-G''), (''m5:1'', ''TT-A'')] = [''AT'', ''CT'', ''--'', ''GA'']
   \<and> fst (get_alignment demo_compara (demo_block demo_members2 1) [] None True) =
       Inr [(''h1:1'', ''ACG''), (''m5:1'', ''TTA'')]
   \<and> columns [(''h1:1'', ''ACG''), (''m5:1'', ''TTA'')] = [''AT'', ''CT'', ''GA'']"
proof -
  let ?p = "demo_block demo_members2 1"
  let ?full = "[(''h1:1'', ''AC-G''), (''m5:1'', ''TT-A'')]"
  have f: "fst (get_alignment demo_compara ?p [] None False) = Inr ?full" by code_simp
  then have h: "get_alignment demo_compara ?p [] None False =
                (Inr ?full, snd (get_alignment demo_compara ?p [] None False))"
    by (simp add: prod_eq_iff)
  have c: "columns ?full = [''AT'', ''CT'', ''--'', ''GA'']" by code_simp
  have n: "filter not_gap_only [''AT'', ''CT'', ''--'', ''GA''] = [''AT'', ''CT'', ''GA'']"
    by code_simp
  have t: "fst (get_alignment demo_compara ?p [] None True) =
             Inr [(''h1:1'', ''ACG''), (''m5:1'', ''TTA'')]"
    by code_simp
  from get_alignment_omit_redundant [OF h] obtain kept where
    k: "get_alignment demo_compara ?p [] None True =
          (Inr kept, snd (get_alignment demo_compara ?p [] None False))"
    and ck: "columns kept = filter not_gap_only (columns ?full)"
    by blast
  from k t have "kept = [(''h1:1'', ''ACG''), (''m5:1'', ''TTA'')]" by simp
  with ck c n have "columns [(''h1:1'', ''ACG''), (''m5:1'', ''TTA'')] = [''AT'', ''CT'', ''GA'']"
    by simp
  with f c t show ?thesis by simp
qed

end
